theory Spec2Isabelle
  imports Main "HOL-Library.AList"
begin

unbundle bit_operations_syntax

section \<open>Python values and exceptions\<close>

text \<open>
  The values that reach the encoder are Python integers and \<open>None\<close> (the default of
  \<open>Animation.trans_index\<close>).  Exceptions are values of \<open>error\<close>; a function that can
  raise returns \<open>error + 'a\<close> with \<open>Inl\<close> for the exception.
\<close>

datatype pyval = PyInt int | PyNone

datatype error =
    ValueError string
  | KeyError
  | IndexError
  | TypeError
  | AttributeError
  | StructError

fun isinstance_int :: "pyval \<Rightarrow> bool" where
  "isinstance_int (PyInt _) = True"
| "isinstance_int PyNone = False"

section \<open>encoder.py: DataBlock\<close>

text \<open>
  \<open>_bitstream\<close> is a bytearray (entries in 0..255, kept as naturals), \<open>_nbits\<close> counts
  the bits written.
\<close>

record DataBlock =
  bitstream :: "nat list"
  nbits :: nat

definition DataBlock_init :: DataBlock where
  "DataBlock_init = \<lparr>bitstream = [], nbits = 0\<rparr>"

text \<open>\<open>bin(num)[2:]\<close> for \<open>num \<ge> 0\<close>: the binary digits, most significant first
  (\<open>True\<close> is the character 1); \<open>bin(0)[2:]\<close> is the one digit 0.\<close>

fun bin :: "nat \<Rightarrow> bool list" where
  "bin n = (if n < 2 then [odd n] else bin (n div 2) @ [odd n])"

declare bin.simps [simp del]

text \<open>\<open>str.zfill(size)\<close> pads with zeros on the left up to \<open>size\<close> characters and
  never shortens.\<close>

definition zfill :: "nat \<Rightarrow> bool list \<Rightarrow> bool list" where
  "zfill sz string = replicate (sz - length string) False @ string"

text \<open>One round of the loop of \<open>encode_bits\<close>.  \<open>self._bitstream[-1]\<close> raises
  IndexError on an empty bytearray.\<close>

definition write_bit :: "DataBlock \<Rightarrow> bool \<Rightarrow> error + DataBlock" where
  "write_bit s digit =
    (let bs = (if length (bitstream s) * 8 = nbits s then bitstream s @ [0] else bitstream s)
     in if digit then
          (case rev bs of
             [] \<Rightarrow> Inl IndexError
           | b # _ \<Rightarrow> Inr \<lparr>bitstream = butlast bs @ [b OR push_bit (nbits s mod 8) 1],
                           nbits = nbits s + 1\<rparr>)
        else Inr \<lparr>bitstream = bs, nbits = nbits s + 1\<rparr>)"

fun write_bits :: "DataBlock \<Rightarrow> bool list \<Rightarrow> error + DataBlock" where
  "write_bits s [] = Inr s"
| "write_bits s (d # ds) =
    (case write_bit s d of Inl e \<Rightarrow> Inl e | Inr s' \<Rightarrow> write_bits s' ds)"

definition encode_bits :: "DataBlock \<Rightarrow> nat \<Rightarrow> nat \<Rightarrow> error + DataBlock" where
  "encode_bits s num sz = write_bits s (rev (zfill sz (bin num)))"

text \<open>The \<open>while\<close> loop of \<open>dump_bytes\<close>: full blocks of 255 bytes, each after its
  length byte.\<close>

function dump_loop :: "nat list \<Rightarrow> nat list \<Rightarrow> nat list \<times> nat list" where
  "dump_loop bytestream bs =
    (if length bs > 255
     then dump_loop (bytestream @ [255] @ take 255 bs) (drop 255 bs)
     else (bytestream, bs))"
  by pat_completeness auto
termination
  by (relation "measure (\<lambda>(bytestream, bs). length bs)") auto

declare dump_loop.simps [simp del]

definition dump_bytes :: "DataBlock \<Rightarrow> nat list \<times> DataBlock" where
  "dump_bytes s =
    (case dump_loop [] (bitstream s) of (bytestream, bs) \<Rightarrow>
       ((if length bs > 0 then bytestream @ [length bs] @ bs else bytestream),
        \<lparr>bitstream = [], nbits = 0\<rparr>))"

text \<open>A run of \<open>encode_bits\<close> calls, given as (code, width) pairs.\<close>

fun encode_all :: "DataBlock \<Rightarrow> (nat \<times> nat) list \<Rightarrow> error + DataBlock" where
  "encode_all s [] = Inr s"
| "encode_all s ((num, sz) # cws) =
    (case encode_bits s num sz of Inl e \<Rightarrow> Inl e | Inr s' \<Rightarrow> encode_all s' cws)"

subsection \<open>Reading a packed stream back\<close>

text \<open>
  The reader of the bit-packing property: the payload of a sequence of length-prefixed
  sub-blocks, the bits of a byte sequence least significant first, and the codes read
  from a bit sequence at given widths.
\<close>

function payload :: "nat list \<Rightarrow> nat list" where
  "payload [] = []"
| "payload (n # bs) = take n bs @ payload (drop n bs)"
  by pat_completeness auto
termination
  by (relation "measure length") auto

definition byte_bits :: "nat \<Rightarrow> bool list" where
  "byte_bits b = map (bit b) [0..<8]"

definition bits_of_bytes :: "nat list \<Rightarrow> bool list" where
  "bits_of_bytes bs = concat (map byte_bits bs)"

fun bits_to_nat :: "bool list \<Rightarrow> nat" where
  "bits_to_nat [] = 0"
| "bits_to_nat (b # bs) = of_bool b + 2 * bits_to_nat bs"

fun read_codes :: "bool list \<Rightarrow> nat list \<Rightarrow> nat list" where
  "read_codes bits [] = []"
| "read_codes bits (w # ws) = bits_to_nat (take w bits) # read_codes (drop w bits) ws"

text \<open>The \<open>size\<close> low-order bits of \<open>num\<close>, least significant first.\<close>

definition lsb_bits :: "nat \<Rightarrow> nat \<Rightarrow> bool list" where
  "lsb_bits num sz = map (bit num) [0..<sz]"

text \<open>The bits written so far, and the states the class can be in: the bytearray holds
  exactly the bytes the written bits need, and the unused bits of the last byte are 0.\<close>

definition stream_bits :: "DataBlock \<Rightarrow> bool list" where
  "stream_bits s = take (nbits s) (bits_of_bytes (bitstream s))"

definition DataBlock_ok :: "DataBlock \<Rightarrow> bool" where
  "DataBlock_ok s \<longleftrightarrow>
     nbits s \<le> 8 * length (bitstream s) \<and> 8 * length (bitstream s) < nbits s + 8 \<and>
     drop (nbits s) (bits_of_bytes (bitstream s)) =
       replicate (8 * length (bitstream s) - nbits s) False"

text \<open>A prefix of a sub-block sequence is complete when the reader, having consumed it,
  starts afresh on what follows.\<close>

definition blocks_ok :: "nat list \<Rightarrow> bool" where
  "blocks_ok acc \<longleftrightarrow> (\<forall>rest. payload (acc @ rest) = payload acc @ payload rest)"

section \<open>encoder.py: Compression\<close>

text \<open>
  \<open>Compression.__init__\<close>.  The guard is written as in the source: it raises only when
  the argument is not an \<open>int\<close> and also lies outside 2..12.  Comparing \<open>None\<close> with an
  integer raises TypeError; \<open>1 << n\<close> raises ValueError for negative \<open>n\<close>.
\<close>

record Compression =
  stream :: DataBlock
  min_code_length :: nat
  clear_code :: nat
  end_code :: nat
  max_codes :: nat

definition Compression_init :: "pyval \<Rightarrow> error + Compression" where
  "Compression_init mcl =
    (case mcl of
       PyNone \<Rightarrow> Inl TypeError
     | PyInt n \<Rightarrow>
         if \<not> isinstance_int mcl \<and> \<not> (2 \<le> n \<and> n \<le> 12)
         then Inl (ValueError ''Invalid minimum code length.'')
         else if n < 0 then Inl (ValueError ''negative shift count'')
         else Inr \<lparr>stream = DataBlock_init, min_code_length = nat n,
                    clear_code = 2 ^ nat n, end_code = 2 ^ nat n + 1, max_codes = 4096\<rparr>)"

text \<open>
  The code table is a dict from tuples of symbols to codes, kept as an association list
  with distinct keys; \<open>code_table[k]\<close> raises KeyError for a missing key and
  \<open>code_table[k] = v\<close> is \<open>AList.update\<close>.  The initial dict is
  \<open>{(i,): i for i in range(1 << min_code_length)}\<close>.
\<close>

type_synonym code_table = "(pyval list \<times> nat) list"

definition lookup :: "code_table \<Rightarrow> pyval list \<Rightarrow> error + nat" where
  "lookup t k = (case map_of t k of None \<Rightarrow> Inl KeyError | Some v \<Rightarrow> Inr v)"

definition init_table :: "nat \<Rightarrow> code_table" where
  "init_table mcl = map (\<lambda>i. ([PyInt (int i)], i)) [0..<2 ^ mcl]"

text \<open>The local variables of \<open>__call__\<close> at the head of the loop, with the stream.\<close>

record lzw_state =
  code_length :: nat
  next_code :: nat
  table :: code_table
  pattern :: "pyval list"
  out :: DataBlock

text \<open>The state when the loop is entered: the clear code has been written.\<close>

definition lzw_start :: "Compression \<Rightarrow> error + lzw_state" where
  "lzw_start C =
    (case encode_bits (stream C) (clear_code C) (min_code_length C + 1) of
       Inl e \<Rightarrow> Inl e
     | Inr st \<Rightarrow> Inr \<lparr>code_length = min_code_length C + 1, next_code = end_code C + 1,
                      table = init_table (min_code_length C), pattern = [], out = st\<rparr>)"

text \<open>The table right after \<open>code_table[pattern] = next_code\<close>, where it is largest.\<close>

definition lzw_insert :: "lzw_state \<Rightarrow> pyval \<Rightarrow> code_table" where
  "lzw_insert s c = AList.update (pattern s @ [c]) (next_code s) (table s)"

text \<open>One round of the loop over \<open>input_data\<close>.\<close>

definition lzw_step :: "Compression \<Rightarrow> lzw_state \<Rightarrow> pyval \<Rightarrow> error + lzw_state" where
  "lzw_step C s c =
    (let p = pattern s @ [c] in
     if map_of (table s) p \<noteq> None then Inr (s\<lparr>pattern := p\<rparr>)
     else
       let t = lzw_insert s c in
       case lookup t (butlast p) of
         Inl e \<Rightarrow> Inl e
       | Inr prefix_code \<Rightarrow>
          (case encode_bits (out s) prefix_code (code_length s) of
             Inl e \<Rightarrow> Inl e
           | Inr st \<Rightarrow>
              let nc = next_code s + 1;
                  cl = (if nc = 2 ^ code_length s + 1 then code_length s + 1 else code_length s)
              in if nc = max_codes C then
                   (case encode_bits st (clear_code C) cl of
                      Inl e \<Rightarrow> Inl e
                    | Inr st' \<Rightarrow>
                        Inr \<lparr>code_length = min_code_length C + 1, next_code = end_code C + 1,
                             table = init_table (min_code_length C), pattern = [c],
                             out = st'\<rparr>)
                 else Inr \<lparr>code_length = cl, next_code = nc, table = t, pattern = [c],
                           out = st\<rparr>))"

fun lzw_loop :: "Compression \<Rightarrow> lzw_state \<Rightarrow> pyval list \<Rightarrow> error + lzw_state" where
  "lzw_loop C s [] = Inr s"
| "lzw_loop C s (c # cs) =
    (case lzw_step C s c of Inl e \<Rightarrow> Inl e | Inr s' \<Rightarrow> lzw_loop C s' cs)"

text \<open>
  \<open>Compression.__call__\<close>: the result bytes and the object with its stream reset.
  \<open>bytearray([min_code_length])\<close> raises ValueError for a value above 255.
\<close>

definition Compression_call :: "Compression \<Rightarrow> pyval list \<Rightarrow> error + (nat list \<times> Compression)" where
  "Compression_call C input_data =
    (case lzw_start C of
       Inl e \<Rightarrow> Inl e
     | Inr s0 \<Rightarrow>
        (case lzw_loop C s0 input_data of
           Inl e \<Rightarrow> Inl e
         | Inr s \<Rightarrow>
            (case lookup (table s) (pattern s) of
               Inl e \<Rightarrow> Inl e
             | Inr code \<Rightarrow>
                (case encode_bits (out s) code (code_length s) of
                   Inl e \<Rightarrow> Inl e
                 | Inr st1 \<Rightarrow>
                    (case encode_bits st1 (end_code C) (code_length s) of
                       Inl e \<Rightarrow> Inl e
                     | Inr st2 \<Rightarrow>
                        if min_code_length C < 256 then
                          (case dump_bytes st2 of (bytes, st3) \<Rightarrow>
                             Inr ([min_code_length C] @ bytes @ [0], C\<lparr>stream := st3\<rparr>))
                        else Inl (ValueError ''byte must be in range(0, 256)''))))))"

text \<open>Constructing a compressor and calling it once.\<close>

definition compress_fresh :: "pyval \<Rightarrow> pyval list \<Rightarrow> error + nat list" where
  "compress_fresh mcl input_data =
    (case Compression_init mcl of
       Inl e \<Rightarrow> Inl e
     | Inr C \<Rightarrow> (case Compression_call C input_data of
                   Inl e \<Rightarrow> Inl e | Inr (bytes, C') \<Rightarrow> Inr bytes))"

section \<open>The encoding loop: states reached and their invariant\<close>

text \<open>The symbols of the alphabet of a compressor: the integers \<open>0 .. 2 ^ min_code_length - 1\<close>.\<close>

definition in_alphabet :: "nat \<Rightarrow> pyval \<Rightarrow> bool" where
  "in_alphabet mcl c = (case c of PyInt i \<Rightarrow> 0 \<le> i \<and> i < 2 ^ mcl | PyNone \<Rightarrow> False)"

text \<open>The state at the head of the loop of \<open>__call__\<close> after the symbols \<open>xs\<close> have been
  read, for a compressor \<open>C\<close> and for a compressor freshly built from \<open>mcl\<close>.\<close>

definition lzw_run :: "Compression \<Rightarrow> pyval list \<Rightarrow> error + lzw_state" where
  "lzw_run C xs = (case lzw_start C of Inl e \<Rightarrow> Inl e | Inr s0 \<Rightarrow> lzw_loop C s0 xs)"

definition lzw_fresh_run :: "pyval \<Rightarrow> pyval list \<Rightarrow> error + lzw_state" where
  "lzw_fresh_run mcl xs =
    (case Compression_init mcl of Inl e \<Rightarrow> Inl e | Inr C \<Rightarrow> lzw_run C xs)"

text \<open>The number of codes in use: the entries of the dict and the clear and end codes,
  which are not keys of the dict.\<close>

definition live_entries :: "code_table \<Rightarrow> nat" where
  "live_entries t = length t + 2"


text \<open>What holds of the local variables at every head of the loop, for
  \<open>min_code_length\<close> from 1 to 11 and symbols of the alphabet.\<close>

definition lzw_inv :: "nat \<Rightarrow> lzw_state \<Rightarrow> bool" where
  "lzw_inv mcl s \<longleftrightarrow>
     DataBlock_ok (out s) \<and> mcl + 1 \<le> code_length s \<and> code_length s \<le> 12 \<and>
     2 ^ mcl + 2 \<le> next_code s \<and> next_code s \<le> 2 ^ code_length s \<and> next_code s < 4096 \<and>
     length (table s) + 2 = next_code s \<and> distinct (map fst (table s)) \<and>
     (\<forall>c. in_alphabet mcl c \<longrightarrow> map_of (table s) [c] \<noteq> None) \<and>
     (\<forall>v \<in> snd ` set (table s). v < next_code s) \<and>
     (pattern s \<noteq> [] \<longrightarrow> map_of (table s) (pattern s) \<noteq> None)"

text \<open>
  \<open>Compression.__call__\<close> on a generator.  The loop pulls the symbols one by one, so a
  generator that raises at its \<open>k\<close>-th symbol does so after the first \<open>k\<close> symbols have
  been encoded, if encoding them has not raised before.  The generator is given as the
  list of its results.
\<close>

definition Compression_call_gen ::
  "Compression \<Rightarrow> (error + pyval) list \<Rightarrow> error + (nat list \<times> Compression)" where
  "Compression_call_gen C gen =
    (let good = map projr (takeWhile (\<lambda>r. \<not> isl r) gen) in
     if length good = length gen then Compression_call C good
     else (case lzw_run C good of
             Inl e \<Rightarrow> Inl e
           | Inr s \<Rightarrow> Inl (projl (gen ! length good))))"

section \<open>encoder.py: the blocks of a frame\<close>

text \<open>
  \<open>struct.pack\<close> for the little-endian unsigned formats \<open>B\<close> (one byte) and \<open>H\<close> (two
  bytes): a field is given by its number of bytes and its value, and a value out of range
  raises \<open>struct.error\<close>.
\<close>

definition pack_uint :: "nat \<Rightarrow> int \<Rightarrow> error + nat list" where
  "pack_uint n v =
    (if 0 \<le> v \<and> v < 256 ^ n then Inr (map (\<lambda>k. nat (v div 256 ^ k mod 256)) [0..<n])
     else Inl StructError)"

fun pack :: "(nat \<times> int) list \<Rightarrow> error + nat list" where
  "pack [] = Inr []"
| "pack ((n, v) # fs) =
    (case pack_uint n v of
       Inl e \<Rightarrow> Inl e
     | Inr bs \<Rightarrow> (case pack fs of Inl e \<Rightarrow> Inl e | Inr rest \<Rightarrow> Inr (bs @ rest)))"

definition graphics_control_block :: "int \<Rightarrow> pyval \<Rightarrow> error + nat list" where
  "graphics_control_block delay trans_index =
    (case trans_index of
       PyNone \<Rightarrow> pack [(1, 0x21), (1, 0xF9), (1, 4), (1, 4), (2, delay), (1, 0), (1, 0)]
     | PyInt t \<Rightarrow> pack [(1, 0x21), (1, 0xF9), (1, 4), (1, 5), (2, delay), (1, t), (1, 0)])"

definition image_descriptor :: "int \<Rightarrow> int \<Rightarrow> int \<Rightarrow> int \<Rightarrow> int \<Rightarrow> error + nat list" where
  "image_descriptor left top' width height byte =
    pack [(1, 0x2C), (2, left), (2, top'), (2, width), (2, height), (1, byte)]"

text \<open>
  \<open>global_color_table\<close>.  The palette is a list of integers; \<open>bytearray(palette)\<close> raises
  for an entry outside 0..255, which the code turns into its own ValueError.
  \<open>1 << color_depth\<close> raises TypeError for \<open>None\<close> and ValueError for a negative depth.
\<close>

definition global_color_table :: "pyval \<Rightarrow> int list \<Rightarrow> error + nat list" where
  "global_color_table color_depth palette =
    (if \<not> list_all (\<lambda>x. 0 \<le> x \<and> x \<le> 255) palette
     then Inl (ValueError ''Cannot convert palette to bytearray.'')
     else
       (case color_depth of
          PyNone \<Rightarrow> Inl TypeError
        | PyInt d \<Rightarrow>
            if d < 0 then Inl (ValueError ''negative shift count'')
            else
              let valid_length = 3 * 2 ^ nat d in
              if length palette < valid_length then Inl (ValueError ''Invalid palette length.'')
              else if length palette > valid_length
                then Inr (take valid_length (map nat palette))
              else Inr (map nat palette)))"

section \<open>surface.py: GIFSurface\<close>

text \<open>
  The in-memory file \<open>_io\<close> is the list of the bytes written so far.  \<open>size\<close> is named
  \<open>surface_size\<close> here.
\<close>

record GIFSurface =
  surface_size :: "int \<times> int"
  loop :: int
  io :: "nat list"
  color_depth :: pyval
  palette :: "nat list"
  lzw_compress :: Compression

definition set_palette :: "GIFSurface \<Rightarrow> int list \<Rightarrow> error + GIFSurface" where
  "set_palette S p =
    (case global_color_table (color_depth S) p of
       Inl e \<Rightarrow> Inl e
     | Inr t \<Rightarrow> Inr (S\<lparr>palette := t\<rparr>))"

definition set_lzw_compress :: "GIFSurface \<Rightarrow> pyval \<Rightarrow> error + GIFSurface" where
  "set_lzw_compress S mcl =
    (case mcl of
       PyNone \<Rightarrow> Inl TypeError
     | PyInt m \<Rightarrow>
        (case Compression_init (PyInt (max 2 (min 12 m))) of
           Inl e \<Rightarrow> Inl e
         | Inr C \<Rightarrow> Inr (S\<lparr>lzw_compress := C\<rparr>)))"

definition GIFSurface_write :: "GIFSurface \<Rightarrow> nat list \<Rightarrow> GIFSurface" where
  "GIFSurface_write S data = S\<lparr>io := io S @ data\<rparr>"

definition GIFSurface_compress ::
  "GIFSurface \<Rightarrow> (error + pyval) list \<Rightarrow> error + (nat list \<times> GIFSurface)" where
  "GIFSurface_compress S data =
    (case Compression_call_gen (lzw_compress S) data of
       Inl e \<Rightarrow> Inl e
     | Inr (bytes, C) \<Rightarrow> Inr (bytes, S\<lparr>lzw_compress := C\<rparr>))"

text \<open>\<open>rectangle\<close> builds a compressor of its own; \<open>[color] * width * height\<close> is empty
  when a factor is not positive.\<close>

definition rectangle ::
  "GIFSurface \<Rightarrow> int \<Rightarrow> int \<Rightarrow> int \<Rightarrow> int \<Rightarrow> pyval \<Rightarrow> error + GIFSurface" where
  "rectangle S left top' width height color =
    (case image_descriptor left top' width height 0 of
       Inl e \<Rightarrow> Inl e
     | Inr descriptor \<Rightarrow>
        (case compress_fresh (PyInt 2) (replicate (nat width * nat height) color) of
           Inl e \<Rightarrow> Inl e
         | Inr data \<Rightarrow> Inr (GIFSurface_write S (descriptor @ data))))"

text \<open>
  \<open>GIFSurface.__init__\<close>.  The guard on the colour depth is written as in the source:
  \<open>not isinstance(color_depth, int) and 1 <= color_depth <= 8\<close>; for \<open>None\<close> the
  comparison raises TypeError.  \<open>palette\<close> is \<open>None\<close> or a list, and \<open>not palette\<close> holds
  of \<open>None\<close> and of the empty list; \<open>not min_code_length\<close> holds of \<open>None\<close> and of 0.
\<close>

definition GIFSurface_init ::
  "int \<Rightarrow> int \<Rightarrow> pyval \<Rightarrow> int list option \<Rightarrow> int \<Rightarrow> pyval \<Rightarrow> pyval \<Rightarrow> error + GIFSurface" where
  "GIFSurface_init width height cd pal lp bg_color min_code_len =
    (case cd of
       PyNone \<Rightarrow> Inl TypeError
     | PyInt d \<Rightarrow>
        if \<not> isinstance_int cd \<and> (1 \<le> d \<and> d \<le> 8) then Inl (ValueError ''Invalid color depth.'')
        else
          (case (if pal = None \<or> pal = Some []
                 then (if d < 0 then Inl (ValueError ''negative shift count'')
                       else Inr (replicate (3 * 2 ^ nat d) 0))
                 else Inr (the pal)) of
             Inl e \<Rightarrow> Inl e
           | Inr p \<Rightarrow>
              (case set_palette \<lparr>surface_size = (width, height), loop = lp, io = [],
                                 color_depth = cd, palette = [],
                                 lzw_compress = \<lparr>stream = DataBlock_init, min_code_length = 0,
                                   clear_code = 0, end_code = 0, max_codes = 0\<rparr>\<rparr> p of
                 Inl e \<Rightarrow> Inl e
               | Inr S1 \<Rightarrow>
                  (case set_lzw_compress S1
                          (if min_code_len = PyNone \<or> min_code_len = PyInt 0 then cd
                           else min_code_len) of
                     Inl e \<Rightarrow> Inl e
                   | Inr S2 \<Rightarrow>
                      if bg_color \<noteq> PyNone then rectangle S2 0 0 width height bg_color
                      else Inr S2))))"

section \<open>maze.py: Maze\<close>

text \<open>
  The grid is a list of \<open>width\<close> columns of \<open>height\<close> cells, each column a list of its
  own.  Only \<open>mask = None\<close> is modelled, and the lists \<open>cells\<close> and \<open>_graph\<close>, which the
  marking of cells does not read, are left out.  \<open>size\<close> is named \<open>maze_size\<close> here.
\<close>

record Maze =
  maze_size :: "int \<times> int"
  grid :: "int list list"
  num_changes :: nat
  frame_box :: "(int \<times> int \<times> int \<times> int) option"

definition Maze_init :: "int \<Rightarrow> int \<Rightarrow> error + Maze" where
  "Maze_init width height =
    (if width * height mod 2 = 0
     then Inl (ValueError ''The width and height must both be odd integers.'')
     else Inr \<lparr>maze_size = (width, height),
               grid = replicate (nat width) (replicate (nat height) 0),
               num_changes = 0, frame_box = None\<rparr>)"

text \<open>Indexing a list of length \<open>n\<close> with a Python integer: a negative index counts from
  the end, and an index outside \<open>-n .. n - 1\<close> raises IndexError.\<close>

definition py_index :: "int \<Rightarrow> nat \<Rightarrow> nat option" where
  "py_index i n =
    (if 0 \<le> i \<and> i < int n then Some (nat i)
     else if - int n \<le> i \<and> i < 0 then Some (nat (int n + i))
     else None)"

definition mark_cell :: "Maze \<Rightarrow> int \<times> int \<Rightarrow> int \<Rightarrow> error + Maze" where
  "mark_cell M cell v =
    (case cell of (x, y) \<Rightarrow>
      (case py_index x (length (grid M)) of
         None \<Rightarrow> Inl IndexError
       | Some i \<Rightarrow>
          (case py_index y (length (grid M ! i)) of
             None \<Rightarrow> Inl IndexError
           | Some j \<Rightarrow>
              Inr (M\<lparr>grid := (grid M)[i := (grid M ! i)[j := v]],
                     num_changes := num_changes M + 1,
                     frame_box :=
                       (case frame_box M of
                          Some (left, top', right, bottom) \<Rightarrow>
                            Some (min x left, min y top', max x right, max y bottom)
                        | None \<Rightarrow> Some (x, y, x, y))\<rparr>))))"

definition get_cell :: "Maze \<Rightarrow> int \<times> int \<Rightarrow> error + int" where
  "get_cell M cell =
    (case cell of (x, y) \<Rightarrow>
      (case py_index x (length (grid M)) of
         None \<Rightarrow> Inl IndexError
       | Some i \<Rightarrow>
          (case py_index y (length (grid M ! i)) of
             None \<Rightarrow> Inl IndexError
           | Some j \<Rightarrow> Inr (grid M ! i ! j))))"

definition reset :: "Maze \<Rightarrow> Maze" where
  "reset M = M\<lparr>num_changes := 0, frame_box := None\<rparr>"

text \<open>A sequence of \<open>mark_cell\<close> calls, given as (cell, value) pairs.\<close>

fun mark_cells :: "Maze \<Rightarrow> ((int \<times> int) \<times> int) list \<Rightarrow> error + Maze" where
  "mark_cells M [] = Inr M"
| "mark_cells M ((cell, v) # cvs) =
    (case mark_cell M cell v of Inl e \<Rightarrow> Inl e | Inr M' \<Rightarrow> mark_cells M' cvs)"

text \<open>Whether a cell can be indexed in the grid, and the tight bounding box of a list of
  cells, as the specification words it.\<close>

definition in_grid :: "Maze \<Rightarrow> int \<times> int \<Rightarrow> bool" where
  "in_grid M cell =
    (case cell of (x, y) \<Rightarrow>
      (case py_index x (length (grid M)) of
         None \<Rightarrow> False
       | Some i \<Rightarrow> py_index y (length (grid M ! i)) \<noteq> None))"

definition tight_box :: "(int \<times> int) list \<Rightarrow> (int \<times> int \<times> int \<times> int) option" where
  "tight_box cells =
    (if cells = [] then None
     else Some (Min (set (map fst cells)), Min (set (map snd cells)),
                Max (set (map fst cells)), Max (set (map snd cells))))"

section \<open>animation.py: Animation\<close>

text \<open>
  The animation holds its surface and, once \<open>add_maze\<close> has been called, its maze; both
  are reached only through the animation here, so they are kept inside its record.  An
  animation without a maze raises AttributeError where \<open>self.maze\<close> is read.  The
  colormap is a dict from cell values to colour indices.
\<close>

record Animation =
  surface :: GIFSurface
  num_colors :: nat
  colormap :: "(int \<times> pyval) list"
  speed :: int
  trans_index :: pyval
  delay :: int
  cell_size :: int
  translation :: "int \<times> int"
  maze :: "Maze option"

definition Animation_init :: "GIFSurface \<Rightarrow> error + Animation" where
  "Animation_init S =
    (case color_depth S of
       PyNone \<Rightarrow> Inl TypeError
     | PyInt d \<Rightarrow>
        if d < 0 then Inl (ValueError ''negative shift count'')
        else Inr \<lparr>surface = S, num_colors = 2 ^ nat d,
                  colormap = map (\<lambda>i. (int i, PyInt (int i))) [0..<2 ^ nat d],
                  speed = 10, trans_index = PyNone, delay = 5, cell_size = 5,
                  translation = (0, 0), maze = None\<rparr>)"

definition add_maze :: "Animation \<Rightarrow> Maze \<Rightarrow> int \<Rightarrow> int \<times> int \<Rightarrow> Animation" where
  "add_maze A M cs tr = A\<lparr>maze := Some M, cell_size := cs, translation := tr\<rparr>"

definition pad_delay_frame :: "Animation \<Rightarrow> int \<Rightarrow> error + Animation" where
  "pad_delay_frame A d =
    (case graphics_control_block d (trans_index A) of
       Inl e \<Rightarrow> Inl e
     | Inr control \<Rightarrow>
        (case image_descriptor 0 0 1 1 0 of
           Inl e \<Rightarrow> Inl e
         | Inr descriptor \<Rightarrow>
            (case GIFSurface_compress (surface A) [Inr (trans_index A)] of
               Inl e \<Rightarrow> Inl e
             | Inr (data, S) \<Rightarrow>
                 Inr (A\<lparr>surface := GIFSurface_write S (control @ descriptor @ data)\<rparr>))))"

text \<open>
  The generator \<open>get_frame_pixels\<close> of \<open>_encode_frame\<close>, as the list of its results: the
  \<open>i\<close>-th pixel reads a cell and maps its value through the colormap.  The range is
  empty unless \<open>width * height * cell_size * cell_size\<close> is positive, and then no divisor
  is zero.
\<close>

definition get_frame_pixels ::
  "Animation \<Rightarrow> Maze \<Rightarrow> int \<Rightarrow> int \<Rightarrow> int \<Rightarrow> int \<Rightarrow> (error + pyval) list" where
  "get_frame_pixels A M left top' width height =
    map (\<lambda>k.
          let i = int k;
              y = i div (width * cell_size A * cell_size A);
              x = (i mod (width * cell_size A)) div cell_size A
          in case get_cell M (x + left, y + top') of
               Inl e \<Rightarrow> Inl e
             | Inr val \<Rightarrow>
                (case map_of (colormap A) val of
                   None \<Rightarrow> Inl KeyError
                 | Some col \<Rightarrow> Inr col))
        [0..<nat (width * height * cell_size A * cell_size A)]"

definition encode_frame :: "Animation \<Rightarrow> error + (nat list \<times> Animation)" where
  "encode_frame A =
    (case graphics_control_block (delay A) (trans_index A) of
       Inl e \<Rightarrow> Inl e
     | Inr control \<Rightarrow>
        (case maze A of
           None \<Rightarrow> Inl AttributeError
         | Some M \<Rightarrow>
            (case (case frame_box M of
                     Some box \<Rightarrow> box
                   | None \<Rightarrow> (0, 0, fst (maze_size M) - 1, snd (maze_size M) - 1)) of
               (left, top', right, bottom) \<Rightarrow>
                 let width = right - left + 1;
                     height = bottom - top' + 1
                 in case image_descriptor (cell_size A * left + fst (translation A))
                                          (cell_size A * top' + snd (translation A))
                                          (cell_size A * width) (cell_size A * height) 0 of
                      Inl e \<Rightarrow> Inl e
                    | Inr descriptor \<Rightarrow>
                       (case GIFSurface_compress (surface A)
                               (get_frame_pixels A M left top' width height) of
                          Inl e \<Rightarrow> Inl e
                        | Inr (data, S) \<Rightarrow>
                            Inr (control @ descriptor @ data,
                                 A\<lparr>surface := S, maze := Some (reset M)\<rparr>)))))"

definition refresh_frame :: "Animation \<Rightarrow> error + Animation" where
  "refresh_frame A =
    (case maze A of
       None \<Rightarrow> Inl AttributeError
     | Some M \<Rightarrow>
        if int (num_changes M) \<ge> speed A then
          (case encode_frame A of
             Inl e \<Rightarrow> Inl e
           | Inr (frame, A') \<Rightarrow> Inr (A'\<lparr>surface := GIFSurface_write (surface A') frame\<rparr>))
        else Inr A)"

definition clear_remaining_changes :: "Animation \<Rightarrow> error + Animation" where
  "clear_remaining_changes A =
    (case maze A of
       None \<Rightarrow> Inl AttributeError
     | Some M \<Rightarrow>
        if num_changes M > 0 then
          (case encode_frame A of
             Inl e \<Rightarrow> Inl e
           | Inr (frame, A') \<Rightarrow> Inr (A'\<lparr>surface := GIFSurface_write (surface A') frame\<rparr>))
        else Inr A)"

section \<open>Properties of DataBlock\<close>

lemma length_byte_bits [simp]: "length (byte_bits b) = 8"
  by (simp add: byte_bits_def)

lemma length_bits_of_bytes [simp]: "length (bits_of_bytes bs) = 8 * length bs"
  by (induction bs) (simp_all add: bits_of_bytes_def)

lemma bits_of_bytes_append [simp]:
  "bits_of_bytes (xs @ ys) = bits_of_bytes xs @ bits_of_bytes ys"
  by (simp add: bits_of_bytes_def)

lemma bits_of_bytes_single [simp]: "bits_of_bytes [b] = byte_bits b"
  by (simp add: bits_of_bytes_def)

lemma bits_of_bytes_Nil [simp]: "bits_of_bytes [] = []"
  by (simp add: bits_of_bytes_def)

lemma byte_bits_zero: "byte_bits 0 = replicate 8 False"
  by (simp add: byte_bits_def list_eq_iff_nth_eq del: upt_rec_numeral)

lemma byte_bits_set_bit:
  "k < 8 \<Longrightarrow> byte_bits (b OR 2 ^ k) = (byte_bits b)[k := True]"
  by (auto simp add: byte_bits_def list_eq_iff_nth_eq nth_list_update bit_or_iff bit_exp_iff
      simp del: upt_rec_numeral)



lemma write_bit_ok:
  assumes "DataBlock_ok s"
  shows "\<exists>s'. write_bit s d = Inr s' \<and> DataBlock_ok s' \<and> nbits s' = nbits s + 1 \<and>
           stream_bits s' = stream_bits s @ [d]"
proof (cases "length (bitstream s) * 8 = nbits s")
  case True
  then have m: "nbits s mod 8 = 0" by presburger
  show ?thesis
  proof (cases d)
    case dT: True
    have "byte_bits (0 OR 2 ^ 0) = (byte_bits 0)[0 := True]"
      by (rule byte_bits_set_bit) simp
    then have b1: "byte_bits (Suc 0) = True # replicate 7 False"
      by (simp add: byte_bits_zero numeral_eq_Suc)
    from True dT assms b1 m show ?thesis
      by (simp add: write_bit_def DataBlock_ok_def stream_bits_def mult.commute)
  next
    case dF: False
    from True dF assms show ?thesis
      by (simp add: write_bit_def DataBlock_ok_def stream_bits_def mult.commute byte_bits_zero)
  qed
next
  case False
  define bs where "bs = bitstream s"
  define n where "n = nbits s"
  define bits where "bits = bits_of_bytes bs"
  from assms False have lt: "n < 8 * length bs" and gt: "8 * length bs < n + 8"
    and pad: "drop n bits = replicate (8 * length bs - n) False"
    by (auto simp: DataBlock_ok_def bs_def n_def bits_def)
  from lt have ne: "bs \<noteq> []" by auto
  have len: "length bits = 8 * length bs" by (simp add: bits_def)
  have nth_n: "bits ! n = False"
  proof -
    have "bits ! n = drop n bits ! 0" using lt len by simp
    also have "\<dots> = False" unfolding pad using lt by simp
    finally show ?thesis .
  qed
  have pad': "drop (Suc n) bits = replicate (8 * length bs - Suc n) False"
  proof -
    have "drop (Suc n) bits = drop 1 (drop n bits)" by simp
    also have "\<dots> = replicate (8 * length bs - Suc n) False" unfolding pad by simp
    finally show ?thesis .
  qed
  show ?thesis
  proof (cases d)
    case dF: False
    have w: "write_bit s d = Inr \<lparr>bitstream = bs, nbits = n + 1\<rparr>"
      using False dF by (simp add: write_bit_def bs_def n_def)
    have "take (Suc n) bits = take n bits @ [False]"
      using lt len nth_n by (simp add: take_Suc_conv_app_nth)
    with w pad' lt gt dF show ?thesis
      by (simp add: DataBlock_ok_def stream_bits_def bs_def[symmetric] n_def[symmetric]
          bits_def[symmetric])
  next
    case dT: True
    obtain b0 b where bsplit: "bs = b0 @ [b]"
      using ne by (metis rev_exhaust)
    define k where "k = n mod 8"
    have k8: "k < 8" by (simp add: k_def)
    have nk: "n = 8 * length b0 + k"
      using lt gt bsplit by (simp add: k_def) presburger
    have w: "write_bit s d = Inr \<lparr>bitstream = b0 @ [b OR 2 ^ k], nbits = n + 1\<rparr>"
      using False dT bsplit by (simp add: write_bit_def bs_def[symmetric] n_def[symmetric] k_def)
    have bits': "bits_of_bytes (b0 @ [b OR 2 ^ k]) = bits[n := True]"
      using k8 by (simp add: bits_def bsplit byte_bits_set_bit nk list_update_append)
    have t: "take (Suc n) (bits[n := True]) = take n bits @ [True]"
      using lt len by (simp add: take_Suc_conv_app_nth)
    have d': "drop (Suc n) (bits[n := True]) = drop (Suc n) bits"
      by simp
    define s' where "s' = \<lparr>bitstream = b0 @ [b OR 2 ^ k], nbits = n + 1\<rparr>"
    have len': "length (bitstream s') = length bs" and n': "nbits s' = Suc n"
      using bsplit by (simp_all add: s'_def)
    have B: "bits_of_bytes (bitstream s') = bits[n := True]"
      using bits' by (simp add: s'_def)
    have ok': "DataBlock_ok s'"
      unfolding DataBlock_ok_def B len' n' d' pad' using lt gt by simp
    have sb: "stream_bits s' = stream_bits s @ [d]"
      unfolding stream_bits_def B n' t using dT
      by (simp add: bs_def[symmetric] n_def[symmetric] bits_def[symmetric])
    have "write_bit s d = Inr s'" using w by (simp add: s'_def)
    with ok' sb n' show ?thesis
      by (simp add: n_def)
  qed
qed

lemma write_bits_ok:
  "DataBlock_ok s \<Longrightarrow>
   \<exists>s'. write_bits s ds = Inr s' \<and> DataBlock_ok s' \<and> nbits s' = nbits s + length ds \<and>
        stream_bits s' = stream_bits s @ ds"
proof (induction ds arbitrary: s)
  case Nil
  then show ?case by simp
next
  case (Cons d ds)
  from write_bit_ok[OF Cons.prems, of d] obtain s1 where
    s1: "write_bit s d = Inr s1" "DataBlock_ok s1" "nbits s1 = nbits s + 1"
        "stream_bits s1 = stream_bits s @ [d]" by blast
  from Cons.IH[OF s1(2)] obtain s' where
    "write_bits s1 ds = Inr s'" "DataBlock_ok s'" "nbits s' = nbits s1 + length ds"
    "stream_bits s' = stream_bits s1 @ ds" by blast
  with s1 show ?case by simp
qed


lemma length_bin: "num < 2 ^ sz \<Longrightarrow> 0 < sz \<Longrightarrow> length (bin num) \<le> sz"
proof (induction num arbitrary: sz rule: bin.induct)
  case (1 n)
  show ?case
  proof (cases "n < 2")
    case True
    with "1.prems" show ?thesis by (simp add: bin.simps[of n])
  next
    case False
    from False "1.prems" have "1 < sz"
      by (metis One_nat_def Suc_lessI not_less power_one_right)
    then obtain m where m: "sz = Suc m" "0 < m" by (cases sz) auto
    with "1.prems" have "n div 2 < 2 ^ m" by auto
    from "1.IH"[OF False this m(2)] False m show ?thesis
      by (simp add: bin.simps[of n])
  qed
qed

lemma lsb_bits_Suc: "lsb_bits n (Suc m) = odd n # lsb_bits (n div 2) m"
  by (simp add: lsb_bits_def map_upt_Suc bit_0 bit_Suc del: upt_Suc)

lemma lsb_bits_zero: "lsb_bits 0 m = replicate m False"
  by (simp add: lsb_bits_def list_eq_iff_nth_eq)

lemma rev_bin_pad: "rev (bin n) @ replicate k False = lsb_bits n (length (bin n) + k)"
proof (induction n rule: bin.induct)
  case (1 n)
  show ?case
  proof (cases "n < 2")
    case True
    then have "n div 2 = 0" by simp
    with True show ?thesis
      by (simp add: bin.simps[of n] lsb_bits_Suc lsb_bits_zero)
  next
    case False
    with "1.IH"[OF False] show ?thesis
      by (simp add: bin.simps[of n] lsb_bits_Suc)
  qed
qed

lemma bin_lsb:
  assumes "num < 2 ^ sz" "0 < sz"
  shows "rev (zfill sz (bin num)) = lsb_bits num sz"
proof -
  have "length (bin num) \<le> sz" using assms by (rule length_bin)
  then show ?thesis
    using rev_bin_pad[of num "sz - length (bin num)"] by (simp add: zfill_def)
qed


lemma bits_to_nat_lsb: "c < 2 ^ w \<Longrightarrow> bits_to_nat (lsb_bits c w) = c"
proof (induction w arbitrary: c)
  case 0
  then show ?case by (simp add: lsb_bits_def)
next
  case (Suc w)
  then have "c div 2 < 2 ^ w" by auto
  from Suc.IH[OF this] show ?case by (simp add: lsb_bits_Suc)
qed

lemma length_lsb_bits [simp]: "length (lsb_bits c w) = w"
  by (simp add: lsb_bits_def)

lemma read_codes_concat:
  "\<forall>(c, w) \<in> set cws. c < 2 ^ w \<Longrightarrow>
   read_codes (concat (map (\<lambda>(c, w). lsb_bits c w) cws) @ pad) (map snd cws) = map fst cws"
  by (induction cws) (auto simp: bits_to_nat_lsb)

lemma dump_loop_payload:
  "blocks_ok acc \<Longrightarrow> dump_loop acc bs = (blk, r) \<Longrightarrow>
   blocks_ok blk \<and> payload blk @ r = payload acc @ bs \<and> length r \<le> 255"
proof (induction acc bs rule: dump_loop.induct)
  case (1 acc bs)
  show ?case
  proof (cases "length bs > 255")
    case True
    have step: "\<And>rest. payload ((acc @ [255] @ take 255 bs) @ rest)
        = payload acc @ take 255 bs @ payload rest"
    proof -
      fix rest
      have "payload ((acc @ [255] @ take 255 bs) @ rest)
          = payload (acc @ (255 # take 255 bs @ rest))" by simp
      also have "\<dots> = payload acc @ payload (255 # take 255 bs @ rest)"
        using "1.prems"(1) unfolding blocks_ok_def by blast
      also have "\<dots> = payload acc @ take 255 bs @ payload rest"
        using True by simp
      finally show "payload ((acc @ [255] @ take 255 bs) @ rest)
        = payload acc @ take 255 bs @ payload rest" .
    qed
    have ok: "blocks_ok (acc @ [255] @ take 255 bs)"
      unfolding blocks_ok_def using step[of "[]"] step by simp
    have dl: "dump_loop (acc @ [255] @ take 255 bs) (drop 255 bs) = (blk, r)"
      using "1.prems"(2) True by (simp add: dump_loop.simps[of acc bs])
    from "1.IH"[OF True ok dl] step[of "[]"] show ?thesis by simp
  next
    case False
    with "1.prems" show ?thesis by (simp add: dump_loop.simps[of acc bs])
  qed
qed

lemma payload_dump_bytes: "payload (fst (dump_bytes s)) = bitstream s"
proof -
  obtain blk r where dl: "dump_loop [] (bitstream s) = (blk, r)" by (cases "dump_loop [] (bitstream s)")
  have "blocks_ok []" by (simp add: blocks_ok_def)
  from dump_loop_payload[OF this dl] have o: "blocks_ok blk" and p: "payload blk @ r = bitstream s"
    and l: "length r \<le> 255" by simp_all
  show ?thesis
  proof (cases "r = []")
    case True
    with dl p show ?thesis by (simp add: dump_bytes_def)
  next
    case False
    have "payload (blk @ length r # r) = payload blk @ payload (length r # r)"
      using o unfolding blocks_ok_def by blast
    with dl p False show ?thesis by (simp add: dump_bytes_def)
  qed
qed

lemma encode_bits_run:
  "DataBlock_ok s \<Longrightarrow>
   \<exists>s'. encode_bits s num sz = Inr s' \<and> DataBlock_ok s' \<and>
        nbits s' = nbits s + length (zfill sz (bin num)) \<and>
        stream_bits s' = stream_bits s @ rev (zfill sz (bin num))"
  using write_bits_ok[of s "rev (zfill sz (bin num))"] by (simp add: encode_bits_def)

lemma encode_bits_ok:
  assumes "DataBlock_ok s" "num < 2 ^ sz" "0 < sz"
  shows "\<exists>s'. encode_bits s num sz = Inr s' \<and> DataBlock_ok s' \<and> nbits s' = nbits s + sz \<and>
        stream_bits s' = stream_bits s @ lsb_bits num sz"
proof -
  from encode_bits_run[OF assms(1), of num sz] obtain s' where
    s': "encode_bits s num sz = Inr s'" "DataBlock_ok s'"
        "nbits s' = nbits s + length (zfill sz (bin num))"
        "stream_bits s' = stream_bits s @ rev (zfill sz (bin num))" by blast
  have e: "rev (zfill sz (bin num)) = lsb_bits num sz" using assms(2,3) by (rule bin_lsb)
  then have "length (zfill sz (bin num)) = sz"
    by (metis length_lsb_bits length_rev)
  with s' e show ?thesis by simp
qed

lemma encode_all_ok:
  "DataBlock_ok s \<Longrightarrow> \<forall>(c, w) \<in> set cws. c < 2 ^ w \<and> 0 < w \<Longrightarrow>
   \<exists>s'. encode_all s cws = Inr s' \<and> DataBlock_ok s' \<and>
        nbits s' = nbits s + sum_list (map snd cws) \<and>
        stream_bits s' = stream_bits s @ concat (map (\<lambda>(c, w). lsb_bits c w) cws)"
proof (induction cws arbitrary: s)
  case Nil
  then show ?case by simp
next
  case (Cons cw cws)
  obtain c w where cw: "cw = (c, w)" by (cases cw)
  with Cons.prems have f: "c < 2 ^ w" "0 < w" by auto
  from encode_bits_ok[OF Cons.prems(1) f] obtain s1 where
    s1: "encode_bits s c w = Inr s1" "DataBlock_ok s1" "nbits s1 = nbits s + w"
        "stream_bits s1 = stream_bits s @ lsb_bits c w" by blast
  from Cons.prems(2) have "\<forall>(c, w) \<in> set cws. c < 2 ^ w \<and> 0 < w" by simp
  from Cons.IH[OF s1(2) this] obtain s' where
    "encode_all s1 cws = Inr s'" "DataBlock_ok s'"
    "nbits s' = nbits s1 + sum_list (map snd cws)"
    "stream_bits s' = stream_bits s1 @ concat (map (\<lambda>(c, w). lsb_bits c w) cws)" by blast
  with s1 cw show ?case by simp
qed

lemma DataBlock_init_ok: "DataBlock_ok DataBlock_init"
  by (simp add: DataBlock_ok_def DataBlock_init_def)

lemma stream_bits_init: "stream_bits DataBlock_init = []"
  by (simp add: stream_bits_def DataBlock_init_def)

lemma bits_of_bytes_stream:
  "DataBlock_ok s \<Longrightarrow>
   bits_of_bytes (bitstream s) = stream_bits s @ replicate (8 * length (bitstream s) - nbits s) False"
  unfolding DataBlock_ok_def stream_bits_def
  by (metis append_take_drop_id)



section \<open>Compression: basic facts\<close>

lemma map_of_init_table_Nil: "map_of (init_table n) [] = None"
  by (auto simp: init_table_def map_of_eq_None_iff)

lemma lzw_start_ok:
  "DataBlock_ok (stream C) \<Longrightarrow>
   \<exists>st. encode_bits (stream C) (clear_code C) (min_code_length C + 1) = Inr st \<and>
        DataBlock_ok st \<and>
        lzw_start C = Inr \<lparr>code_length = min_code_length C + 1, next_code = end_code C + 1,
                      table = init_table (min_code_length C), pattern = [], out = st\<rparr>"
  using encode_bits_run[of "stream C" "clear_code C" "min_code_length C + 1"]
  by (auto simp: lzw_start_def)

lemma Compression_call_empty:
  assumes "DataBlock_ok (stream C)"
  shows "Compression_call C [] = Inl KeyError"
proof -
  from lzw_start_ok[OF assms] obtain st where
    "lzw_start C = Inr \<lparr>code_length = min_code_length C + 1, next_code = end_code C + 1,
                      table = init_table (min_code_length C), pattern = [], out = st\<rparr>"
    by blast
  then show ?thesis
    by (simp add: Compression_call_def lookup_def map_of_init_table_Nil)
qed

lemma Compression_init_nat:
  "Compression_init (PyInt (int n)) =
     Inr \<lparr>stream = DataBlock_init, min_code_length = n, clear_code = 2 ^ n,
          end_code = 2 ^ n + 1, max_codes = 4096\<rparr>"
  by (simp add: Compression_init_def)

lemma compress_fresh_empty: "compress_fresh (PyInt (int n)) [] = Inl KeyError"
  by (simp add: compress_fresh_def Compression_init_nat Compression_call_empty DataBlock_init_ok)


section \<open>The encoding loop: invariant\<close>

lemma update_new_key: "map_of al k = None \<Longrightarrow> AList.update k v al = al @ [(k, v)]"
  by (induction al) (auto split: if_splits)

lemma map_of_init_table:
  "in_alphabet mcl c \<Longrightarrow> map_of (init_table mcl) [c] \<noteq> None"
proof -
  assume a: "in_alphabet mcl c"
  then obtain i where c: "c = PyInt i" "0 \<le> i" "i < 2 ^ mcl"
    by (cases c) (auto simp: in_alphabet_def)
  then have "nat i < 2 ^ mcl" by (simp add: nat_less_iff)
  then have "nat i \<in> set [0..<2 ^ mcl]" by simp
  then have "fst ([PyInt (int (nat i))], nat i) \<in> fst ` set (init_table mcl)"
    unfolding init_table_def set_map by (intro imageI)
  with c have "[c] \<in> fst ` set (init_table mcl)" by simp
  then show ?thesis by (simp add: map_of_eq_None_iff)
qed

lemma distinct_init_table: "distinct (map fst (init_table mcl))"
  by (simp add: init_table_def distinct_map comp_def inj_on_def)

lemma length_init_table: "length (init_table mcl) = 2 ^ mcl"
  by (simp add: init_table_def)

lemma snd_init_table: "v \<in> snd ` set (init_table mcl) \<Longrightarrow> v < 2 ^ mcl"
  by (auto simp: init_table_def)

lemma pow_bounds:
  assumes "1 \<le> mcl" "mcl \<le> 11"
  shows "(2::nat) ^ mcl + 2 \<le> 2 ^ (mcl + 1)" "(2::nat) ^ mcl + 2 < 4096" "(2::nat) ^ mcl < 2 ^ 12"
proof -
  have "(2::nat) ^ 1 \<le> 2 ^ mcl" using assms(1) by (intro power_increasing) simp_all
  then show "(2::nat) ^ mcl + 2 \<le> 2 ^ (mcl + 1)" by simp
  have "(2::nat) ^ mcl \<le> 2 ^ 11" using assms(2) by (intro power_increasing) simp_all
  then show "(2::nat) ^ mcl + 2 < 4096" "(2::nat) ^ mcl < 2 ^ 12" by simp_all
qed

lemma lzw_inv_init:
  assumes "1 \<le> mcl" "mcl \<le> 11" "DataBlock_ok st" "p = [] \<or> (\<exists>c. p = [c] \<and> in_alphabet mcl c)"
  shows "lzw_inv mcl \<lparr>code_length = mcl + 1, next_code = 2 ^ mcl + 2, table = init_table mcl,
            pattern = p, out = st\<rparr>"
proof -
  have "\<forall>v \<in> snd ` set (init_table mcl). v < 2 ^ mcl + 2"
    using snd_init_table by fastforce
  moreover have "p \<noteq> [] \<longrightarrow> map_of (init_table mcl) p \<noteq> None"
    using assms(4) map_of_init_table by auto
  ultimately show ?thesis
    using assms(1-3) pow_bounds[OF assms(1,2)] map_of_init_table distinct_init_table
    by (simp add: lzw_inv_def length_init_table)
qed


lemma lzw_step_match:
  assumes "map_of (table s) (pattern s @ [c]) \<noteq> None" "lzw_inv mcl s"
  shows "lzw_step C s c = Inr (s\<lparr>pattern := pattern s @ [c]\<rparr>)"
    and "lzw_inv mcl (s\<lparr>pattern := pattern s @ [c]\<rparr>)"
  using assms by (auto simp: lzw_step_def lzw_inv_def)

lemma lzw_step_new:
  assumes C: "min_code_length C = mcl" "clear_code C = 2 ^ mcl" "end_code C = 2 ^ mcl + 1"
      "max_codes C = 4096"
    and m: "1 \<le> mcl" "mcl \<le> 11"
    and inv: "lzw_inv mcl s"
    and c: "in_alphabet mcl c"
    and new: "map_of (table s) (pattern s @ [c]) = None"
  shows "\<exists>s' code. lzw_step C s c = Inr s' \<and> lzw_inv mcl s' \<and>
           map_of (table s) (pattern s) = Some code \<and> code < 2 ^ code_length s \<and>
           pattern s' = [c] \<and>
           (if next_code s + 1 = 4096
            then code_length s = 12 \<and>
                 stream_bits (out s') =
                   stream_bits (out s) @ lsb_bits code 12 @ lsb_bits (2 ^ mcl) 12 \<and>
                 code_length s' = mcl + 1 \<and> next_code s' = 2 ^ mcl + 2 \<and>
                 table s' = init_table mcl
            else stream_bits (out s') = stream_bits (out s) @ lsb_bits code (code_length s) \<and>
                 next_code s' = next_code s + 1 \<and> table s' = lzw_insert s c \<and>
                 code_length s' =
                   (if next_code s = 2 ^ code_length s then code_length s + 1
                    else code_length s))"
proof -
  from inv have ok: "DataBlock_ok (out s)" and cl: "mcl + 1 \<le> code_length s" "code_length s \<le> 12"
    and nc: "2 ^ mcl + 2 \<le> next_code s" "next_code s \<le> 2 ^ code_length s" "next_code s < 4096"
    and len: "length (table s) + 2 = next_code s" and dist: "distinct (map fst (table s))"
    and alpha: "\<And>c. in_alphabet mcl c \<Longrightarrow> map_of (table s) [c] \<noteq> None"
    and vals: "\<And>v. v \<in> snd ` set (table s) \<Longrightarrow> v < next_code s"
    and pat: "pattern s \<noteq> [] \<Longrightarrow> map_of (table s) (pattern s) \<noteq> None"
    by (auto simp: lzw_inv_def)
  have pne: "pattern s \<noteq> []"
    using alpha[OF c] new by auto
  from pat[OF pne] obtain code where code: "map_of (table s) (pattern s) = Some code" by auto
  then have "(pattern s, code) \<in> set (table s)" by (rule map_of_SomeD)
  then have "code \<in> snd ` set (table s)" by force
  then have code_lt: "code < next_code s" by (rule vals)
  with nc(2) have code_fit: "code < 2 ^ code_length s" by simp
  have t: "lzw_insert s c = table s @ [(pattern s @ [c], next_code s)]"
    unfolding lzw_insert_def using new by (rule update_new_key)
  have lk: "lookup (lzw_insert s c) (butlast (pattern s @ [c])) = Inr code"
    using code by (simp add: lookup_def t)
  have pos: "0 < code_length s" using cl(1) by simp
  from encode_bits_ok[OF ok code_fit pos] obtain st where
    st: "encode_bits (out s) code (code_length s) = Inr st" "DataBlock_ok st"
        "stream_bits st = stream_bits (out s) @ lsb_bits code (code_length s)" by blast
  show ?thesis
  proof (cases "next_code s + 1 = 4096")
    case True
    have cl12: "code_length s = 12"
    proof (rule ccontr)
      assume "code_length s \<noteq> 12"
      with cl(2) have "code_length s \<le> 11" by simp
      then have "(2::nat) ^ code_length s \<le> 2 ^ 11" by (intro power_increasing) simp_all
      with nc(2) True show False by simp
    qed
    have nobump: "next_code s + 1 \<noteq> 2 ^ code_length s + 1" using True cl12 by simp
    have "(2::nat) ^ mcl < 2 ^ 12" using pow_bounds(3)[OF m] .
    from encode_bits_ok[OF st(2) this] obtain st' where
      st': "encode_bits st (2 ^ mcl) 12 = Inr st'" "DataBlock_ok st'"
        "stream_bits st' = stream_bits st @ lsb_bits (2 ^ mcl) 12" by auto
    define s' where "s' = \<lparr>code_length = mcl + 1, next_code = 2 ^ mcl + 2,
        table = init_table mcl, pattern = [c], out = st'\<rparr>"
    have step: "lzw_step C s c = Inr s'"
      using new lk st(1) st'(1) True nobump cl12 C
      by (simp add: lzw_step_def Let_def s'_def)
    have inv': "lzw_inv mcl s'"
      unfolding s'_def using m st'(2) c by (intro lzw_inv_init) auto
    from step inv' code code_fit True cl12 st(3) st'(3) show ?thesis
      by (auto simp: s'_def)
  next
    case False
    define cl' where "cl' = (if next_code s = 2 ^ code_length s then code_length s + 1
                    else code_length s)"
    define s' where "s' = \<lparr>code_length = cl', next_code = next_code s + 1,
        table = lzw_insert s c, pattern = [c], out = st\<rparr>"
    have step: "lzw_step C s c = Inr s'"
      using new lk st(1) False C
      by (simp add: lzw_step_def Let_def s'_def cl'_def)
    have a1: "mcl + 1 \<le> cl'" using cl(1) by (simp add: cl'_def)
    have a2: "cl' \<le> 12"
    proof (cases "next_code s = 2 ^ code_length s")
      case eq: True
      have "code_length s \<noteq> 12"
      proof
        assume "code_length s = 12"
        with eq nc(3) show False by simp
      qed
      with cl(2) eq show ?thesis by (simp add: cl'_def)
    next
      case neq: False
      with cl(2) show ?thesis by (simp add: cl'_def)
    qed
    have a3: "next_code s + 1 \<le> 2 ^ cl'"
      using nc(2) by (auto simp: cl'_def)
    have a4: "next_code s + 1 < 4096" using nc(3) False by simp
    have a5: "length (lzw_insert s c) + 2 = next_code s + 1" using len by (simp add: t)
    have a6: "distinct (map fst (lzw_insert s c))"
      unfolding lzw_insert_def using dist by (rule distinct_update)
    have a7: "\<And>d. in_alphabet mcl d \<Longrightarrow> map_of (lzw_insert s c) [d] \<noteq> None"
      using alpha by (auto simp: t)
    have a8: "\<And>v. v \<in> snd ` set (lzw_insert s c) \<Longrightarrow> v < next_code s + 1"
      using vals by (auto simp: t less_Suc_eq)
    have a9: "map_of (lzw_insert s c) [c] \<noteq> None" using a7[OF c] .
    have inv': "lzw_inv mcl s'"
      unfolding lzw_inv_def s'_def using st(2) a1 a2 a3 a4 a5 a6 a7 a8 a9 nc(1)
      by simp
    from step inv' code code_fit False st(3) show ?thesis
      by (auto simp: s'_def cl'_def)
  qed
qed


lemma Compression_init_fields:
  assumes "Compression_init (PyInt (int mcl)) = Inr C"
  shows "min_code_length C = mcl" "clear_code C = 2 ^ mcl" "end_code C = 2 ^ mcl + 1"
    "max_codes C = 4096" "stream C = DataBlock_init"
  using assms by (auto simp: Compression_init_def)

lemma lzw_step_total:
  assumes C: "min_code_length C = mcl" "clear_code C = 2 ^ mcl" "end_code C = 2 ^ mcl + 1"
      "max_codes C = 4096"
    and m: "1 \<le> mcl" "mcl \<le> 11"
    and inv: "lzw_inv mcl s"
    and c: "in_alphabet mcl c"
  shows "\<exists>s'. lzw_step C s c = Inr s' \<and> lzw_inv mcl s' \<and> pattern s' \<noteq> []"
proof (cases "map_of (table s) (pattern s @ [c]) = None")
  case True
  from lzw_step_new[OF C m inv c True] show ?thesis by auto
next
  case False
  from lzw_step_match(1)[OF False inv, of C] lzw_step_match(2)[OF False inv]
  show ?thesis by simp
qed

lemma lzw_loop_append:
  "lzw_loop C s (xs @ ys) =
     (case lzw_loop C s xs of Inl e \<Rightarrow> Inl e | Inr s' \<Rightarrow> lzw_loop C s' ys)"
  by (induction xs arbitrary: s) (auto split: sum.splits)

lemma lzw_loop_total:
  assumes C: "min_code_length C = mcl" "clear_code C = 2 ^ mcl" "end_code C = 2 ^ mcl + 1"
      "max_codes C = 4096"
    and m: "1 \<le> mcl" "mcl \<le> 11"
  shows "lzw_inv mcl s \<Longrightarrow> \<forall>x \<in> set xs. in_alphabet mcl x \<Longrightarrow>
         \<exists>s'. lzw_loop C s xs = Inr s' \<and> lzw_inv mcl s'"
proof (induction xs arbitrary: s)
  case Nil
  then show ?case by simp
next
  case (Cons x xs)
  from Cons.prems have x: "in_alphabet mcl x" and xs: "\<forall>x \<in> set xs. in_alphabet mcl x"
    by simp_all
  from lzw_step_total[OF C m Cons.prems(1) x] obtain s1 where
    s1: "lzw_step C s x = Inr s1" "lzw_inv mcl s1" by blast
  from Cons.IH[OF s1(2) xs] s1(1) show ?case by simp
qed

lemma lzw_start_inv:
  assumes C: "Compression_init (PyInt (int mcl)) = Inr C"
    and m: "1 \<le> mcl" "mcl \<le> 11"
  shows "\<exists>s0. lzw_start C = Inr s0 \<and> lzw_inv mcl s0"
proof -
  note f = Compression_init_fields[OF C]
  have "DataBlock_ok (stream C)" by (simp add: f DataBlock_init_ok)
  from lzw_start_ok[OF this] obtain st where
    st: "DataBlock_ok st"
    "lzw_start C = Inr \<lparr>code_length = min_code_length C + 1, next_code = end_code C + 1,
                      table = init_table (min_code_length C), pattern = [], out = st\<rparr>"
    by blast
  have "lzw_inv mcl \<lparr>code_length = mcl + 1, next_code = 2 ^ mcl + 2,
                      table = init_table mcl, pattern = [], out = st\<rparr>"
    using m st(1) by (intro lzw_inv_init) simp_all
  with st(2) show ?thesis by (simp add: f)
qed

lemma lzw_run_total:
  assumes C: "Compression_init (PyInt (int mcl)) = Inr C"
    and m: "1 \<le> mcl" "mcl \<le> 11"
    and xs: "\<forall>x \<in> set xs. in_alphabet mcl x"
  shows "\<exists>s. lzw_run C xs = Inr s \<and> lzw_inv mcl s"
proof -
  note f = Compression_init_fields[OF C]
  from lzw_start_inv[OF C m] obtain s0 where s0: "lzw_start C = Inr s0" "lzw_inv mcl s0"
    by blast
  from lzw_loop_total[OF f(1-4) m s0(2) xs] s0(1) show ?thesis
    by (simp add: lzw_run_def)
qed

lemma lzw_run_append:
  "lzw_run C xs = Inr s \<Longrightarrow> lzw_run C (xs @ ys) = lzw_loop C s ys"
  by (auto simp: lzw_run_def lzw_loop_append split: sum.splits)

lemma key_length_bound:
  "map_of t p \<noteq> None \<Longrightarrow> length p \<le> sum_list (map (length \<circ> fst) t)"
  by (induction t) (auto split: if_splits)

lemma force_new:
  assumes z: "in_alphabet mcl z"
  shows "lzw_inv mcl s \<Longrightarrow>
     \<exists>n s1. lzw_loop C s (replicate n z) = Inr s1 \<and> lzw_inv mcl s1 \<and>
            next_code s1 = next_code s \<and> table s1 = table s \<and>
            map_of (table s1) (pattern s1 @ [z]) = None"
proof (induction "Suc (sum_list (map (length \<circ> fst) (table s))) - length (pattern s)"
    arbitrary: s rule: less_induct)
  case less
  show ?case
  proof (cases "map_of (table s) (pattern s @ [z]) = None")
    case True
    have "lzw_loop C s (replicate 0 z) = Inr s" by simp
    with less.prems True show ?thesis by blast
  next
    case False
    define s2 where "s2 = s\<lparr>pattern := pattern s @ [z]\<rparr>"
    from lzw_step_match(1)[OF False less.prems, of C] lzw_step_match(2)[OF False less.prems]
    have st: "lzw_step C s z = Inr s2" and inv2: "lzw_inv mcl s2" by (simp_all add: s2_def)
    from key_length_bound[of "table s" "pattern s @ [z]"] False
    have "Suc (length (pattern s)) \<le> sum_list (map (length \<circ> fst) (table s))" by simp
    then have "Suc (sum_list (map (length \<circ> fst) (table s2))) - length (pattern s2)
        < Suc (sum_list (map (length \<circ> fst) (table s))) - length (pattern s)"
      by (simp add: s2_def)
    from less.hyps[OF this inv2] obtain n s1 where
      r: "lzw_loop C s2 (replicate n z) = Inr s1" "lzw_inv mcl s1"
         "next_code s1 = next_code s2" "table s1 = table s2"
         "map_of (table s1) (pattern s1 @ [z]) = None" by blast
    have "lzw_loop C s (replicate (Suc n) z) = Inr s1" using st r(1) by simp
    with r show ?thesis unfolding s2_def by (intro exI[of _ "Suc n"] exI[of _ s1]) simp
  qed
qed

lemma reach_full:
  assumes C: "min_code_length C = mcl" "clear_code C = 2 ^ mcl" "end_code C = 2 ^ mcl + 1"
      "max_codes C = 4096"
    and m: "1 \<le> mcl" "mcl \<le> 11"
    and z: "in_alphabet mcl z"
  shows "lzw_inv mcl s \<Longrightarrow>
     \<exists>n s1. lzw_loop C s (replicate n z) = Inr s1 \<and> lzw_inv mcl s1 \<and>
            next_code s1 + 1 = 4096 \<and> map_of (table s1) (pattern s1 @ [z]) = None"
proof (induction "4095 - next_code s" arbitrary: s rule: less_induct)
  case less
  from force_new[OF z less.prems, of C] obtain n s1 where
    r: "lzw_loop C s (replicate n z) = Inr s1" "lzw_inv mcl s1"
       "next_code s1 = next_code s" "map_of (table s1) (pattern s1 @ [z]) = None" by blast
  show ?case
  proof (cases "next_code s1 + 1 = 4096")
    case True
    with r show ?thesis by blast
  next
    case False
    from lzw_step_new[OF C m r(2) z r(4)] False obtain s2 where
      s2: "lzw_step C s1 z = Inr s2" "lzw_inv mcl s2" "next_code s2 = next_code s1 + 1"
      by auto
    from r(2) have "next_code s1 < 4096" by (simp add: lzw_inv_def)
    with False s2(3) r(3) have "4095 - next_code s2 < 4095 - next_code s" by simp
    from less.hyps[OF this s2(2)] obtain k s3 where
      k: "lzw_loop C s2 (replicate k z) = Inr s3" "lzw_inv mcl s3"
         "next_code s3 + 1 = 4096" "map_of (table s3) (pattern s3 @ [z]) = None" by blast
    have "replicate (n + Suc k) z = replicate n z @ z # replicate k z"
      by (simp add: replicate_add replicate_app_Cons_same)
    then have "lzw_loop C s (replicate (n + Suc k) z) = Inr s3"
      using r(1) s2(1) k(1) by (simp add: lzw_loop_append)
    with k show ?thesis by blast
  qed
qed


lemma lzw_fresh_run_Nil:
  "\<exists>st. lzw_fresh_run (PyInt (int n)) [] =
     Inr \<lparr>code_length = n + 1, next_code = 2 ^ n + 2, table = init_table n, pattern = [],
          out = st\<rparr>"
proof -
  define C where "C = \<lparr>stream = DataBlock_init, min_code_length = n, clear_code = 2 ^ n,
          end_code = 2 ^ n + 1, max_codes = 4096\<rparr>"
  have "DataBlock_ok (stream C)" by (simp add: C_def DataBlock_init_ok)
  from lzw_start_ok[OF this] show ?thesis
    by (auto simp: lzw_fresh_run_def Compression_init_nat lzw_run_def C_def)
qed

lemma lzw_run_step:
  assumes C: "Compression_init (PyInt (int mcl)) = Inr C"
    and m: "1 \<le> mcl" "mcl \<le> 11"
    and xs: "\<forall>x \<in> set xs. in_alphabet mcl x"
    and c: "in_alphabet mcl c"
  shows "\<exists>s s'. lzw_run C xs = Inr s \<and> lzw_step C s c = Inr s' \<and> lzw_inv mcl s \<and>
           lzw_inv mcl s' \<and>
           (if map_of (table s) (pattern s @ [c]) \<noteq> None
            then s' = s\<lparr>pattern := pattern s @ [c]\<rparr>
            else \<exists>code. map_of (table s) (pattern s) = Some code \<and> pattern s' = [c] \<and>
             (if next_code s + 1 = 4096
              then code_length s = 12 \<and>
                 stream_bits (out s') =
                   stream_bits (out s) @ lsb_bits code 12 @ lsb_bits (2 ^ mcl) 12 \<and>
                 code_length s' = mcl + 1 \<and> next_code s' = 2 ^ mcl + 2 \<and>
                 table s' = init_table mcl
              else next_code s' = next_code s + 1 \<and> table s' = lzw_insert s c \<and>
                 code_length s' =
                   (if next_code s = 2 ^ code_length s then code_length s + 1
                    else code_length s)))"
proof -
  note f = Compression_init_fields[OF C]
  from lzw_run_total[OF C m xs] obtain s where s: "lzw_run C xs = Inr s" "lzw_inv mcl s"
    by blast
  show ?thesis
  proof (cases "map_of (table s) (pattern s @ [c]) = None")
    case True
    from lzw_step_new[OF f(1-4) m s(2) c True] obtain s' code where
      "lzw_step C s c = Inr s'" "lzw_inv mcl s'"
      "map_of (table s) (pattern s) = Some code" "pattern s' = [c]"
      "if next_code s + 1 = 4096
            then code_length s = 12 \<and>
                 stream_bits (out s') =
                   stream_bits (out s) @ lsb_bits code 12 @ lsb_bits (2 ^ mcl) 12 \<and>
                 code_length s' = mcl + 1 \<and> next_code s' = 2 ^ mcl + 2 \<and>
                 table s' = init_table mcl
            else stream_bits (out s') = stream_bits (out s) @ lsb_bits code (code_length s) \<and>
                 next_code s' = next_code s + 1 \<and> table s' = lzw_insert s c \<and>
                 code_length s' =
                   (if next_code s = 2 ^ code_length s then code_length s + 1
                    else code_length s)"
      by blast
    with s True show ?thesis
      by (intro exI[of _ s] exI[of _ s']) (auto split: if_splits)
  next
    case False
    from lzw_step_match(1)[OF False s(2), of C] lzw_step_match(2)[OF False s(2)] s False
    show ?thesis by (intro exI[of _ s] exI[of _ "s\<lparr>pattern := pattern s @ [c]\<rparr>"]) simp
  qed
qed


lemma length_update_le: "length (AList.update k v al) \<le> Suc (length al)"
  by (induction al) auto

lemma live_entries_insert:
  "live_entries (lzw_insert s c) \<le> live_entries (table s) + 1"
  by (simp add: live_entries_def lzw_insert_def length_update_le)


section \<open>Maze: marking cells\<close>

lemma mark_cell_in_grid:
  assumes "in_grid M (x, y)"
  shows "\<exists>M'. mark_cell M (x, y) v = Inr M' \<and> num_changes M' = num_changes M + 1 \<and>
           frame_box M' =
             (case frame_box M of
                Some (l, t, r, b) \<Rightarrow> Some (min x l, min y t, max x r, max y b)
              | None \<Rightarrow> Some (x, y, x, y)) \<and>
           (\<forall>c'. in_grid M' c' = in_grid M c')"
proof -
  from assms obtain i j where i: "py_index x (length (grid M)) = Some i"
    and j: "py_index y (length (grid M ! i)) = Some j"
    by (auto simp: in_grid_def split: option.splits)
  have il: "i < length (grid M)"
    using i by (auto simp: py_index_def split: if_splits)
  have g: "in_grid (M\<lparr>grid := (grid M)[i := (grid M ! i)[j := v]], num_changes := nc,
                       frame_box := fb\<rparr>) c' = in_grid M c'" for c' nc fb
  proof -
    obtain x' y' where c': "c' = (x', y')" by (cases c')
    show ?thesis
    proof (cases "py_index x' (length (grid M))")
      case None
      then show ?thesis by (simp add: in_grid_def c')
    next
      case (Some i')
      then have "i' < length (grid M)" by (auto simp: py_index_def split: if_splits)
      then have "length ((grid M)[i := (grid M ! i)[j := v]] ! i') = length (grid M ! i')"
        by (cases "i' = i") simp_all
      with Some show ?thesis by (simp add: in_grid_def c')
    qed
  qed
  show ?thesis
    using i j g by (simp add: mark_cell_def split: option.splits)
qed

lemma tight_box_snoc:
  "tight_box (cs @ [(x, y)]) =
     (case tight_box cs of
        Some (l, t, r, b) \<Rightarrow> Some (min x l, min y t, max x r, max y b)
      | None \<Rightarrow> Some (x, y, x, y))"
proof (cases "cs = []")
  case True
  then show ?thesis by (simp add: tight_box_def)
next
  case False
  then have ne: "fst ` set cs \<noteq> {}" "snd ` set cs \<noteq> {}" by simp_all
  have f: "finite (fst ` set cs)" "finite (snd ` set cs)" by simp_all
  show ?thesis
    using False Min_insert[OF f(1) ne(1)] Max_insert[OF f(1) ne(1)]
      Min_insert[OF f(2) ne(2)] Max_insert[OF f(2) ne(2)]
    by (simp add: tight_box_def)
qed

lemma mark_cells_append:
  "mark_cells M (xs @ ys) =
     (case mark_cells M xs of Inl e \<Rightarrow> Inl e | Inr M' \<Rightarrow> mark_cells M' ys)"
  by (induction xs arbitrary: M) (auto split: sum.splits)

lemma mark_cells_box:
  "\<forall>c \<in> set (map fst cvs). in_grid M c \<Longrightarrow> num_changes M = 0 \<Longrightarrow> frame_box M = None \<Longrightarrow>
   \<exists>M'. mark_cells M cvs = Inr M' \<and> num_changes M' = length cvs \<and>
        frame_box M' = tight_box (map fst cvs) \<and> (\<forall>c'. in_grid M' c' = in_grid M c')"
proof (induction cvs rule: rev_induct)
  case Nil
  then show ?case by (simp add: tight_box_def)
next
  case (snoc cv cvs)
  obtain x y v where cv: "cv = ((x, y), v)" by (cases cv) auto
  from snoc.prems have p: "\<forall>c \<in> set (map fst cvs). in_grid M c" and q: "in_grid M (x, y)"
    by (simp_all add: cv)
  from snoc.IH[OF p snoc.prems(2,3)] obtain M1 where
    m1: "mark_cells M cvs = Inr M1" "num_changes M1 = length cvs"
        "frame_box M1 = tight_box (map fst cvs)" "\<forall>c'. in_grid M1 c' = in_grid M c'" by blast
  from q m1(4) have "in_grid M1 (x, y)" by simp
  from mark_cell_in_grid[OF this, of v] obtain M2 where
    m2: "mark_cell M1 (x, y) v = Inr M2" "num_changes M2 = num_changes M1 + 1"
      "frame_box M2 =
             (case frame_box M1 of
                Some (l, t, r, b) \<Rightarrow> Some (min x l, min y t, max x r, max y b)
              | None \<Rightarrow> Some (x, y, x, y))"
      "\<forall>c'. in_grid M2 c' = in_grid M1 c'" by blast
  have "mark_cells M (cvs @ [cv]) = Inr M2"
    using m1(1) m2(1) by (simp add: mark_cells_append cv)
  moreover have "frame_box M2 = tight_box (map fst (cvs @ [cv]))"
    using m2(3) m1(3) by (simp add: cv tight_box_snoc)
  ultimately show ?case using m1 m2 by simp
qed

lemma in_grid_reset: "in_grid (reset M) c = in_grid M c"
  by (cases c) (simp add: in_grid_def reset_def split: option.splits)


section \<open>Animation: frames\<close>

lemma init_table_key: "map_of (init_table m) [c] \<noteq> None \<Longrightarrow> in_alphabet m c"
proof -
  assume "map_of (init_table m) [c] \<noteq> None"
  then have "[c] \<in> fst ` set (init_table m)" by (simp add: map_of_eq_None_iff)
  then obtain i where "i < 2 ^ m" "c = PyInt (int i)" by (auto simp: init_table_def)
  then show ?thesis by (simp add: in_alphabet_def)
qed

lemma lzw_step_first_bad:
  assumes "\<not> in_alphabet (min_code_length C) c"
  shows "lzw_step C \<lparr>code_length = cl, next_code = nc, table = init_table (min_code_length C),
            pattern = [], out = st\<rparr> c = Inl KeyError"
proof -
  define s where "s = \<lparr>code_length = cl, next_code = nc,
    table = init_table (min_code_length C), pattern = [], out = st\<rparr>"
  have "map_of (init_table (min_code_length C)) [c] = None"
  proof (rule ccontr)
    assume "map_of (init_table (min_code_length C)) [c] \<noteq> None"
    from init_table_key[OF this] assms show False by simp
  qed
  then have n: "map_of (table s) (pattern s @ [c]) = None"
    by (simp add: s_def)
  then have "lzw_insert s c = table s @ [(pattern s @ [c], next_code s)]"
    unfolding lzw_insert_def by (rule update_new_key)
  then have lk: "lookup (lzw_insert s c) (butlast (pattern s @ [c])) = Inl KeyError"
    by (simp add: lookup_def s_def map_add_def map_of_init_table_Nil)
  have "lzw_step C s c = Inl KeyError"
    unfolding lzw_step_def Let_def using n lk by simp
  then show ?thesis by (simp add: s_def)
qed

lemma Compression_call_single:
  assumes "\<not> in_alphabet (min_code_length C) c"
  shows "isl (Compression_call C [c])"
    and "DataBlock_ok (stream C) \<Longrightarrow> Compression_call C [c] = Inl KeyError"
proof -
  show "isl (Compression_call C [c])"
  proof (cases "lzw_start C")
    case (Inl e)
    then show ?thesis by (simp add: Compression_call_def)
  next
    case (Inr s0)
    then obtain st where "s0 = \<lparr>code_length = min_code_length C + 1, next_code = end_code C + 1,
                      table = init_table (min_code_length C), pattern = [], out = st\<rparr>"
      by (auto simp: lzw_start_def split: sum.splits)
    with Inr lzw_step_first_bad[OF assms] show ?thesis
      by (simp add: Compression_call_def)
  qed
  assume "DataBlock_ok (stream C)"
  from lzw_start_ok[OF this] obtain st where
    "lzw_start C = Inr \<lparr>code_length = min_code_length C + 1, next_code = end_code C + 1,
                      table = init_table (min_code_length C), pattern = [], out = st\<rparr>"
    by blast
  with lzw_step_first_bad[OF assms] show "Compression_call C [c] = Inl KeyError"
    by (simp add: Compression_call_def)
qed

lemma Compression_call_gen_single: "Compression_call_gen C [Inr c] = Compression_call C [c]"
  by (simp add: Compression_call_gen_def)

lemma pad_delay_frame_bad:
  assumes "\<not> in_alphabet (min_code_length (lzw_compress (surface A))) (trans_index A)"
  shows "isl (pad_delay_frame A d)"
proof -
  from Compression_call_single(1)[OF assms] obtain e where
    "Compression_call (lzw_compress (surface A)) [trans_index A] = Inl e"
    by (cases "Compression_call (lzw_compress (surface A)) [trans_index A]") auto
  then show ?thesis
    by (simp add: pad_delay_frame_def GIFSurface_compress_def Compression_call_gen_single
        split: sum.splits)
qed

lemma gcb_None_ok:
  "0 \<le> d \<Longrightarrow> d < 65536 \<Longrightarrow> \<exists>control. graphics_control_block d PyNone = Inr control"
  by (simp add: graphics_control_block_def pack_uint_def)

lemma image_descriptor_1x1_ok: "\<exists>descriptor. image_descriptor 0 0 1 1 0 = Inr descriptor"
  by (simp add: image_descriptor_def pack_uint_def)

lemma pack_uint_length: "pack_uint n v = Inr bs \<Longrightarrow> length bs = n"
  by (auto simp: pack_uint_def split: if_splits)

lemma pack_length: "pack fs = Inr bs \<Longrightarrow> length bs = sum_list (map fst fs)"
proof (induction fs arbitrary: bs)
  case Nil
  then show ?case by simp
next
  case (Cons f fs)
  obtain n v where f: "f = (n, v)" by (cases f)
  from Cons.prems obtain b1 rest where
    b: "pack_uint n v = Inr b1" "pack fs = Inr rest" "bs = b1 @ rest"
    by (auto simp: f split: sum.splits)
  from Cons.IH[OF b(2)] pack_uint_length[OF b(1)] b(3) show ?case by (simp add: f)
qed

lemma graphics_control_block_length:
  assumes "graphics_control_block d ti = Inr control"
  shows "length control = 8"
proof (cases ti)
  case (PyInt x)
  with assms have
    "pack [(1, 0x21), (1, 0xF9), (1, 4), (1, 5), (2, d), (1, x), (1, 0)] = Inr control"
    by (simp only: graphics_control_block_def pyval.case)
  from pack_length[OF this] show ?thesis by simp
next
  case PyNone
  with assms have
    "pack [(1, 0x21), (1, 0xF9), (1, 4), (1, 4), (2, d), (1, 0), (1, 0)] = Inr control"
    by (simp only: graphics_control_block_def pyval.case)
  from pack_length[OF this] show ?thesis by simp
qed

lemma image_descriptor_length:
  assumes "image_descriptor l t w h b = Inr descriptor"
  shows "length descriptor = 10"
proof -
  from assms have "pack [(1, 0x2C), (2, l), (2, t), (2, w), (2, h), (1, b)] = Inr descriptor"
    by (simp only: image_descriptor_def)
  from pack_length[OF this] show ?thesis by simp
qed

lemma Compression_call_shape:
  "Compression_call C xs = Inr (bytes, C') \<Longrightarrow>
   \<exists>blocks. bytes = min_code_length C # blocks @ [0]"
  by (auto simp: Compression_call_def dump_bytes_def split: sum.splits if_splits prod.splits)

lemma Compression_call_gen_shape:
  "Compression_call_gen C gen = Inr (bytes, C') \<Longrightarrow>
   \<exists>blocks. bytes = min_code_length C # blocks @ [0]"
  by (auto simp: Compression_call_gen_def Let_def dest: Compression_call_shape
      split: sum.splits if_splits)

lemma GIFSurface_compress_shape:
  "GIFSurface_compress S gen = Inr (data, S') \<Longrightarrow>
   \<exists>blocks. data = min_code_length (lzw_compress S) # blocks @ [0]"
  by (auto simp: GIFSurface_compress_def dest: Compression_call_gen_shape split: sum.splits)

lemma encode_frame_result:
  assumes "maze A = Some M"
    and "(case frame_box M of Some box \<Rightarrow> box
          | None \<Rightarrow> (0, 0, fst (maze_size M) - 1, snd (maze_size M) - 1)) = (l, t, r, b)"
    and "encode_frame A = Inr (frame, A1)"
  shows "\<exists>control descriptor blocks S'.
     graphics_control_block (delay A) (trans_index A) = Inr control \<and> length control = 8 \<and>
     image_descriptor (cell_size A * l + fst (translation A))
       (cell_size A * t + snd (translation A))
       (cell_size A * (r - l + 1)) (cell_size A * (b - t + 1)) 0 = Inr descriptor \<and>
     length descriptor = 10 \<and>
     GIFSurface_compress (surface A) (get_frame_pixels A M l t (r - l + 1) (b - t + 1)) =
       Inr (min_code_length (lzw_compress (surface A)) # blocks @ [0], S') \<and>
     frame = control @ descriptor @ min_code_length (lzw_compress (surface A)) # blocks @ [0] \<and>
     A1 = A\<lparr>surface := S', maze := Some (reset M)\<rparr>"
proof -
  from assms(3) obtain control where
    c: "graphics_control_block (delay A) (trans_index A) = Inr control"
    by (auto simp: encode_frame_def split: sum.splits)
  from assms c obtain descriptor where
    d: "image_descriptor (cell_size A * l + fst (translation A))
       (cell_size A * t + snd (translation A))
       (cell_size A * (r - l + 1)) (cell_size A * (b - t + 1)) 0 = Inr descriptor"
    by (auto simp: encode_frame_def Let_def split: sum.splits)
  from assms c d obtain data S' where
    g: "GIFSurface_compress (surface A) (get_frame_pixels A M l t (r - l + 1) (b - t + 1)) =
       Inr (data, S')"
    and f: "frame = control @ descriptor @ data" "A1 = A\<lparr>surface := S', maze := Some (reset M)\<rparr>"
    by (auto simp: encode_frame_def Let_def split: sum.splits)
  from GIFSurface_compress_shape[OF g] obtain blocks where
    "data = min_code_length (lzw_compress (surface A)) # blocks @ [0]" by blast
  with c d g f graphics_control_block_length[OF c] image_descriptor_length[OF d]
  show ?thesis by blast
qed

lemma Compression_call_total:
  assumes C: "Compression_init (PyInt (int mcl)) = Inr C"
    and m: "1 \<le> mcl" "mcl \<le> 11"
    and xs: "\<forall>x \<in> set xs. in_alphabet mcl x"
    and ne: "xs \<noteq> []"
  shows "\<exists>bytes C'. Compression_call C xs = Inr (bytes, C')"
proof -
  note f = Compression_init_fields[OF C]
  from ne obtain ys y where xy: "xs = ys @ [y]" by (metis rev_exhaust)
  with xs have ys: "\<forall>x \<in> set ys. in_alphabet mcl x" and y: "in_alphabet mcl y" by simp_all
  from lzw_run_total[OF C m ys] obtain s1 where s1: "lzw_run C ys = Inr s1" "lzw_inv mcl s1"
    by blast
  from lzw_step_total[OF f(1-4) m s1(2) y] obtain s2 where
    s2: "lzw_step C s1 y = Inr s2" "lzw_inv mcl s2" "pattern s2 \<noteq> []" by blast
  from lzw_run_append[OF s1(1), of "[y]"] s2(1) have run: "lzw_run C xs = Inr s2"
    by (simp add: xy)
  then obtain s0 where s0: "lzw_start C = Inr s0" "lzw_loop C s0 xs = Inr s2"
    by (auto simp: lzw_run_def split: sum.splits)
  from s2(2,3) obtain code where code: "lookup (table s2) (pattern s2) = Inr code"
    by (auto simp: lzw_inv_def lookup_def)
  from s2(2) have ok: "DataBlock_ok (out s2)" by (simp add: lzw_inv_def)
  from encode_bits_run[OF ok, of code "code_length s2"] obtain st1 where
    st1: "encode_bits (out s2) code (code_length s2) = Inr st1" "DataBlock_ok st1" by blast
  from encode_bits_run[OF st1(2), of "end_code C" "code_length s2"] obtain st2 where
    st2: "encode_bits st1 (end_code C) (code_length s2) = Inr st2" by blast
  have "min_code_length C < 256" using f(1) m(2) by simp
  with s0 code st1(1) st2 show ?thesis
    by (simp add: Compression_call_def split: prod.splits)
qed

lemma Compression_call_gen_total:
  assumes C: "Compression_init (PyInt (int mcl)) = Inr C"
    and m: "1 \<le> mcl" "mcl \<le> 11"
    and gen: "\<forall>p \<in> set gen. \<exists>c. p = Inr c \<and> in_alphabet mcl c"
    and ne: "gen \<noteq> []"
  shows "\<exists>bytes C'. Compression_call_gen C gen = Inr (bytes, C')"
proof -
  from gen have "\<forall>p \<in> set gen. \<not> isl p" by auto
  then have tw: "takeWhile (\<lambda>r. \<not> isl r) gen = gen" by (simp add: takeWhile_eq_all_conv)
  have a: "\<forall>x \<in> set (map projr gen). in_alphabet mcl x" using gen by auto
  have n: "map projr gen \<noteq> []" using ne by simp
  from Compression_call_total[OF C m a n] show ?thesis
    by (simp add: Compression_call_gen_def tw)
qed

subsection \<open>Bit packing\<close>

text \<open>
  Claim C2, as the code has it.  \<open>zfill\<close> only pads, so \<open>encode_bits\<close> writes the whole
  binary expansion of a code that does not fit its width; the claim holds for codes that fit.
  After any run of calls \<open>encode_bits(code_i, width_i)\<close> on a fresh \<open>DataBlock\<close>, with
  \<open>code_i < 2 ^ width_i\<close> and \<open>width_i > 0\<close>, one more such call succeeds, advances the bit
  position by exactly its width and appends exactly the low-order bits of its code, least
  significant first; and the bytes of \<open>dump_bytes\<close>, with the length prefixes stripped and
  read least significant bit first at the given widths, give back all the codes.
\<close>

theorem encode_bits_roundtrip:
  assumes fits: "\<forall>(c, w) \<in> set cws. c < 2 ^ w \<and> 0 < w"
    and fit: "num < 2 ^ sz" "0 < sz"
  shows "\<exists>s s'. encode_all DataBlock_init cws = Inr s \<and> encode_bits s num sz = Inr s' \<and>
           nbits s' = nbits s + sz \<and>
           stream_bits s' = stream_bits s @ lsb_bits num sz \<and>
           read_codes (bits_of_bytes (payload (fst (dump_bytes s')))) (map snd cws @ [sz])
             = map fst cws @ [num]"
proof -
  from encode_all_ok[OF DataBlock_init_ok fits] obtain s where
    s: "encode_all DataBlock_init cws = Inr s" "DataBlock_ok s"
       "stream_bits s = stream_bits DataBlock_init @ concat (map (\<lambda>(c, w). lsb_bits c w) cws)"
    by blast
  from encode_bits_ok[OF s(2) fit] obtain s' where
    s': "encode_bits s num sz = Inr s'" "DataBlock_ok s'" "nbits s' = nbits s + sz"
        "stream_bits s' = stream_bits s @ lsb_bits num sz" by blast
  let ?all = "cws @ [(num, sz)]"
  have all_fit: "\<forall>(c, w) \<in> set ?all. c < 2 ^ w" using fits fit by auto
  have sb: "stream_bits s' = concat (map (\<lambda>(c, w). lsb_bits c w) ?all)"
    using s(3) s'(4) by (simp add: stream_bits_init)
  have "read_codes (bits_of_bytes (payload (fst (dump_bytes s')))) (map snd ?all) = map fst ?all"
    unfolding payload_dump_bytes bits_of_bytes_stream[OF s'(2)] sb
    using all_fit by (rule read_codes_concat)
  with s(1) s' show ?thesis by auto
qed

text \<open>The statement at a concrete run: the codes 3, 4 and 1000 at widths 5, 3 and 10.\<close>

theorem encode_bits_roundtrip_witness:
  "\<exists>s s'. encode_all DataBlock_init [(3, 5), (4, 3)] = Inr s \<and> encode_bits s 1000 10 = Inr s' \<and>
           nbits s' = nbits s + 10 \<and>
           stream_bits s' = stream_bits s @ lsb_bits 1000 10 \<and>
           read_codes (bits_of_bytes (payload (fst (dump_bytes s')))) (map snd [(3, 5), (4, 3)] @ [10])
             = map fst [(3::nat, 5::nat), (4, 3)] @ [1000]"
  using encode_bits_roundtrip [of "[(3, 5), (4, 3)]" 1000 10] by simp

text \<open>Claim C2 as stated fails for a code wider than its width: \<open>encode_bits(8, 2)\<close> on a
  fresh block writes the four bits of 8 and advances the bit position by 4, not by 2.\<close>

theorem encode_bits_oversized_counterexample:
  "encode_bits DataBlock_init 8 2 = Inr \<lparr>bitstream = [8], nbits = 4\<rparr>"
  by code_simp


subsection \<open>The empty input\<close>

text \<open>
  Claim C1 says that every finite sequence of symbols, for every \<open>min_code_length\<close> from
  2 to 12, is encoded by \<open>Compression.__call__\<close> into a stream that decodes to the same
  sequence.  The empty sequence is not encoded at all: for every \<open>min_code_length\<close> the
  call on a fresh compressor raises KeyError, because after the loop \<open>code_table[pattern]\<close>
  is looked up with the empty tuple, which is no key of the table.
\<close>

theorem compress_empty_fails: "compress_fresh (PyInt (int mcl)) [] = Inl KeyError"
  by (rule compress_fresh_empty)

text \<open>
  Claim C3 says that encoding the empty sequence succeeds and gives the clear code
  immediately followed by the end code.  With \<open>min_code_length = 2\<close> the compressor is
  built, the clear code 4 is written in 3 bits, the lookup of the empty pattern raises
  KeyError, and so does the call: no end code is written and nothing is returned.
\<close>

theorem compress_empty_mcl2:
  "Compression_init (PyInt 2) =
     Inr \<lparr>stream = DataBlock_init, min_code_length = 2, clear_code = 4,
          end_code = 5, max_codes = 4096\<rparr> \<and>
   lzw_start \<lparr>stream = DataBlock_init, min_code_length = 2, clear_code = 4,
          end_code = 5, max_codes = 4096\<rparr> =
     Inr \<lparr>code_length = 3, next_code = 6, table = init_table 2, pattern = [],
          out = \<lparr>bitstream = [4], nbits = 3\<rparr>\<rparr> \<and>
   lookup (init_table 2) [] = Inl KeyError \<and>
   Compression_call \<lparr>stream = DataBlock_init, min_code_length = 2, clear_code = 4,
          end_code = 5, max_codes = 4096\<rparr> [] = Inl KeyError"
  by code_simp


subsection \<open>Code width\<close>

text \<open>
  Claim C4, as the code has it.  For \<open>min_code_length\<close> from 2 to 11 and symbols of the
  alphabet, the loop of \<open>Compression.__call__\<close> reaches a state \<open>s\<close> after any input
  \<open>xs\<close> and a state \<open>s'\<close> after one more symbol \<open>c\<close>; in both the code width lies in
  \<open>[min_code_length + 1, 12]\<close>.  If the step resets the dictionary (the pattern is new
  and \<open>next_code\<close> becomes 4096) the width returns to \<open>min_code_length + 1\<close>;
  otherwise the width does not decrease, grows by at most one, and grows exactly when the
  new \<open>next_code\<close> is above \<open>2 ^ code_length\<close>, that is, equal to \<open>2 ^ code_length + 1\<close>.
\<close>

theorem code_length_range:
  assumes "2 \<le> mcl" "mcl \<le> 11"
    and "Compression_init (PyInt (int mcl)) = Inr C"
    and "\<forall>x \<in> set xs. in_alphabet mcl x"
    and "in_alphabet mcl c"
  shows "\<exists>s s'. lzw_run C xs = Inr s \<and> lzw_step C s c = Inr s' \<and>
           mcl + 1 \<le> code_length s \<and> code_length s \<le> 12 \<and>
           mcl + 1 \<le> code_length s' \<and> code_length s' \<le> 12 \<and>
           (if map_of (table s) (pattern s @ [c]) = None \<and> next_code s + 1 = 4096
            then code_length s' = mcl + 1
            else code_length s \<le> code_length s' \<and> code_length s' \<le> code_length s + 1 \<and>
                 (code_length s < code_length s' \<longleftrightarrow> 2 ^ code_length s < next_code s') \<and>
                 (code_length s < code_length s' \<longleftrightarrow> next_code s' = 2 ^ code_length s + 1))"
proof -
  from assms(1) have m1: "1 \<le> mcl" by simp
  from lzw_run_step[OF assms(3) m1 assms(2) assms(4) assms(5)] obtain s s' where
    r: "lzw_run C xs = Inr s" "lzw_step C s c = Inr s'" "lzw_inv mcl s" "lzw_inv mcl s'"
    and d: "if map_of (table s) (pattern s @ [c]) \<noteq> None
            then s' = s\<lparr>pattern := pattern s @ [c]\<rparr>
            else \<exists>code. map_of (table s) (pattern s) = Some code \<and> pattern s' = [c] \<and>
             (if next_code s + 1 = 4096
              then code_length s = 12 \<and>
                 stream_bits (out s') =
                   stream_bits (out s) @ lsb_bits code 12 @ lsb_bits (2 ^ mcl) 12 \<and>
                 code_length s' = mcl + 1 \<and> next_code s' = 2 ^ mcl + 2 \<and>
                 table s' = init_table mcl
              else next_code s' = next_code s + 1 \<and> table s' = lzw_insert s c \<and>
                 code_length s' =
                   (if next_code s = 2 ^ code_length s then code_length s + 1
                    else code_length s))"
    by blast
  from r(3) have b: "mcl + 1 \<le> code_length s" "code_length s \<le> 12"
    "next_code s \<le> 2 ^ code_length s" by (simp_all add: lzw_inv_def)
  from r(4) have b': "mcl + 1 \<le> code_length s'" "code_length s' \<le> 12"
    by (simp_all add: lzw_inv_def)
  have "if map_of (table s) (pattern s @ [c]) = None \<and> next_code s + 1 = 4096
            then code_length s' = mcl + 1
            else code_length s \<le> code_length s' \<and> code_length s' \<le> code_length s + 1 \<and>
                 (code_length s < code_length s' \<longleftrightarrow> 2 ^ code_length s < next_code s') \<and>
                 (code_length s < code_length s' \<longleftrightarrow> next_code s' = 2 ^ code_length s + 1)"
    using d b(3) by (auto split: if_splits)
  with r(1,2) b b' show ?thesis by blast
qed

text \<open>An instance: \<open>min_code_length = 2\<close>, input 0, 1, 2 and then the symbol 3.\<close>

theorem code_length_range_witness:
  "\<exists>s s'. lzw_run \<lparr>stream = DataBlock_init, min_code_length = 2, clear_code = 4,
                  end_code = 5, max_codes = 4096\<rparr> [PyInt 0, PyInt 1, PyInt 2] = Inr s \<and>
     lzw_step \<lparr>stream = DataBlock_init, min_code_length = 2, clear_code = 4,
                  end_code = 5, max_codes = 4096\<rparr> s (PyInt 3) = Inr s' \<and>
           2 + 1 \<le> code_length s \<and> code_length s \<le> 12 \<and>
           2 + 1 \<le> code_length s' \<and> code_length s' \<le> 12 \<and>
           (if map_of (table s) (pattern s @ [PyInt 3]) = None \<and> next_code s + 1 = 4096
            then code_length s' = 2 + 1
            else code_length s \<le> code_length s' \<and> code_length s' \<le> code_length s + 1 \<and>
                 (code_length s < code_length s' \<longleftrightarrow> 2 ^ code_length s < next_code s') \<and>
                 (code_length s < code_length s' \<longleftrightarrow> next_code s' = 2 ^ code_length s + 1))"
  using code_length_range [of 2 "\<lparr>stream = DataBlock_init, min_code_length = 2, clear_code = 4,
                  end_code = 5, max_codes = 4096\<rparr>" "[PyInt 0, PyInt 1, PyInt 2]" "PyInt 3"]
  by (simp add: Compression_init_def in_alphabet_def)

text \<open>
  With \<open>min_code_length = 12\<close> the width is 13 when the loop is entered.  With
  \<open>min_code_length = 2\<close>, after the input 0, 1, 2 the width is still 3 although
  \<open>next_code\<close> is 8, which 3 bits cannot represent: the width grows one step later.
\<close>

theorem code_length_counterexample:
  "map_sum id code_length (lzw_fresh_run (PyInt 12) []) = Inr 13 \<and>
   map_sum id code_length (lzw_fresh_run (PyInt 2) [PyInt 0, PyInt 1, PyInt 2]) = Inr 3 \<and>
   map_sum id next_code (lzw_fresh_run (PyInt 2) [PyInt 0, PyInt 1, PyInt 2]) = Inr 8"
proof -
  from lzw_fresh_run_Nil[of 12] obtain st where
    "lzw_fresh_run (PyInt (int 12)) [] =
     Inr \<lparr>code_length = 12 + 1, next_code = 2 ^ 12 + 2, table = init_table 12, pattern = [],
          out = st\<rparr>" by blast
  then have a: "map_sum id code_length (lzw_fresh_run (PyInt 12) []) = Inr 13" by simp
  have b: "map_sum id code_length (lzw_fresh_run (PyInt 2) [PyInt 0, PyInt 1, PyInt 2]) = Inr 3"
    by code_simp
  have c: "map_sum id next_code (lzw_fresh_run (PyInt 2) [PyInt 0, PyInt 1, PyInt 2]) = Inr 8"
    by code_simp
  from a b c show ?thesis by simp
qed


subsection \<open>Size of the code table\<close>

text \<open>
  Claim C5, as the code has it.  For \<open>min_code_length\<close> from 2 to 11 and symbols of the
  alphabet: at every head of the loop of \<open>Compression.__call__\<close> the codes in use (the
  entries of the dict and the clear and end codes) number \<open>next_code\<close>, below 4096; right
  after an insertion they number at most 4096.  When the incremented \<open>next_code\<close> is 4096
  the current width is 12, the step writes the code of the pattern and then the clear
  code, both at this width, and leaves the initial width, dict and \<open>next_code\<close>.  This
  happens in the middle of an input: after some positive number of zeros one more zero
  resets the dict, and every continuation over the alphabet is then read to its end.
\<close>

theorem table_bound_reset:
  assumes "2 \<le> mcl" "mcl \<le> 11"
    and "Compression_init (PyInt (int mcl)) = Inr C"
    and "\<forall>x \<in> set xs. in_alphabet mcl x"
    and "in_alphabet mcl c"
  shows "(\<exists>s s'. lzw_run C xs = Inr s \<and> lzw_step C s c = Inr s' \<and>
           live_entries (table s) = next_code s \<and> next_code s < 4096 \<and>
           live_entries (lzw_insert s c) \<le> 4096 \<and> live_entries (table s') < 4096 \<and>
           (map_of (table s) (pattern s @ [c]) = None \<and> next_code s + 1 = 4096 \<longrightarrow>
             (\<exists>code. map_of (table s) (pattern s) = Some code \<and> code_length s = 12 \<and>
                stream_bits (out s') =
                  stream_bits (out s) @ lsb_bits code (code_length s) @
                  lsb_bits (clear_code C) (code_length s) \<and>
                code_length s' = mcl + 1 \<and> table s' = init_table mcl \<and>
                next_code s' = end_code C + 1 \<and> pattern s' = [c]))) \<and>
         (\<exists>n s s'. 0 < n \<and> lzw_run C (replicate n (PyInt 0)) = Inr s \<and>
            map_of (table s) (pattern s @ [PyInt 0]) = None \<and> next_code s + 1 = 4096 \<and>
            lzw_step C s (PyInt 0) = Inr s' \<and> table s' = init_table mcl \<and>
            (\<forall>zs. (\<forall>z \<in> set zs. in_alphabet mcl z) \<longrightarrow>
               (\<exists>s''. lzw_run C (replicate n (PyInt 0) @ PyInt 0 # zs) = Inr s'')))"
proof -
  from assms(1) have m1: "1 \<le> mcl" by simp
  note f = Compression_init_fields[OF assms(3)]
  have A: "\<exists>s s'. lzw_run C xs = Inr s \<and> lzw_step C s c = Inr s' \<and>
           live_entries (table s) = next_code s \<and> next_code s < 4096 \<and>
           live_entries (lzw_insert s c) \<le> 4096 \<and> live_entries (table s') < 4096 \<and>
           (map_of (table s) (pattern s @ [c]) = None \<and> next_code s + 1 = 4096 \<longrightarrow>
             (\<exists>code. map_of (table s) (pattern s) = Some code \<and> code_length s = 12 \<and>
                stream_bits (out s') =
                  stream_bits (out s) @ lsb_bits code (code_length s) @
                  lsb_bits (clear_code C) (code_length s) \<and>
                code_length s' = mcl + 1 \<and> table s' = init_table mcl \<and>
                next_code s' = end_code C + 1 \<and> pattern s' = [c]))"
  proof -
    from lzw_run_step[OF assms(3) m1 assms(2) assms(4) assms(5)] obtain s s' where
      r: "lzw_run C xs = Inr s" "lzw_step C s c = Inr s'" "lzw_inv mcl s" "lzw_inv mcl s'"
      and d: "if map_of (table s) (pattern s @ [c]) \<noteq> None
            then s' = s\<lparr>pattern := pattern s @ [c]\<rparr>
            else \<exists>code. map_of (table s) (pattern s) = Some code \<and> pattern s' = [c] \<and>
             (if next_code s + 1 = 4096
              then code_length s = 12 \<and>
                 stream_bits (out s') =
                   stream_bits (out s) @ lsb_bits code 12 @ lsb_bits (2 ^ mcl) 12 \<and>
                 code_length s' = mcl + 1 \<and> next_code s' = 2 ^ mcl + 2 \<and>
                 table s' = init_table mcl
              else next_code s' = next_code s + 1 \<and> table s' = lzw_insert s c \<and>
                 code_length s' =
                   (if next_code s = 2 ^ code_length s then code_length s + 1
                    else code_length s))"
      by blast
    from r(3) have b: "live_entries (table s) = next_code s" "next_code s < 4096"
      by (simp_all add: lzw_inv_def live_entries_def)
    from r(4) have b': "live_entries (table s') < 4096"
      by (simp add: lzw_inv_def live_entries_def)
    from live_entries_insert[of s c] b have i: "live_entries (lzw_insert s c) \<le> 4096"
      by simp
    have e: "map_of (table s) (pattern s @ [c]) = None \<and> next_code s + 1 = 4096 \<longrightarrow>
             (\<exists>code. map_of (table s) (pattern s) = Some code \<and> code_length s = 12 \<and>
                stream_bits (out s') =
                  stream_bits (out s) @ lsb_bits code (code_length s) @
                  lsb_bits (clear_code C) (code_length s) \<and>
                code_length s' = mcl + 1 \<and> table s' = init_table mcl \<and>
                next_code s' = end_code C + 1 \<and> pattern s' = [c])"
      using d by (auto simp: f)
    from r(1,2) b b' i e show ?thesis by blast
  qed
  have z: "in_alphabet mcl (PyInt 0)" by (simp add: in_alphabet_def)
  have B: "\<exists>n s s'. 0 < n \<and> lzw_run C (replicate n (PyInt 0)) = Inr s \<and>
            map_of (table s) (pattern s @ [PyInt 0]) = None \<and> next_code s + 1 = 4096 \<and>
            lzw_step C s (PyInt 0) = Inr s' \<and> table s' = init_table mcl \<and>
            (\<forall>zs. (\<forall>z \<in> set zs. in_alphabet mcl z) \<longrightarrow>
               (\<exists>s''. lzw_run C (replicate n (PyInt 0) @ PyInt 0 # zs) = Inr s''))"
  proof -
    from lzw_start_inv[OF assms(3) m1 assms(2)] obtain s0 where
      s0: "lzw_start C = Inr s0" "lzw_inv mcl s0" by blast
    from lzw_start_ok[of C] s0(1) have nc0: "next_code s0 = 2 ^ mcl + 2"
      by (auto simp: f DataBlock_init_ok)
    from reach_full[OF f(1-4) m1 assms(2) z s0(2)] obtain n s where
      n: "lzw_loop C s0 (replicate n (PyInt 0)) = Inr s" "lzw_inv mcl s"
         "next_code s + 1 = 4096" "map_of (table s) (pattern s @ [PyInt 0]) = None" by blast
    have run: "lzw_run C (replicate n (PyInt 0)) = Inr s"
      using s0(1) n(1) by (simp add: lzw_run_def)
    have npos: "0 < n"
    proof (rule ccontr)
      assume "\<not> 0 < n"
      then have "s = s0" using n(1) by simp
      with nc0 n(3) pow_bounds(2)[OF m1 assms(2)] have "(2::nat) ^ mcl = 4093" by simp
      moreover have "(2::nat) ^ mcl \<le> 2 ^ 11" using assms(2) by (intro power_increasing) simp_all
      ultimately show False by simp
    qed
    from lzw_step_new[OF f(1-4) m1 assms(2) n(2) z n(4)] n(3) obtain s' where
      s': "lzw_step C s (PyInt 0) = Inr s'" "lzw_inv mcl s'" "table s' = init_table mcl"
      by auto
    have cont: "\<exists>s''. lzw_run C (replicate n (PyInt 0) @ PyInt 0 # zs) = Inr s''"
      if zs: "\<forall>z \<in> set zs. in_alphabet mcl z" for zs
    proof -
      from lzw_loop_total[OF f(1-4) m1 assms(2) s'(2) zs] obtain s'' where
        "lzw_loop C s' zs = Inr s''" by blast
      with lzw_run_append[OF run, of "PyInt 0 # zs"] s'(1) show ?thesis by simp
    qed
    from npos run n(4) n(3) s'(1) s'(3) cont show ?thesis by blast
  qed
  from A B show ?thesis by (rule conjI)
qed

text \<open>An instance: \<open>min_code_length = 2\<close>, input 0, 1, 2 and then the symbol 3; and a run
  of zeros that fills the table.\<close>

theorem table_bound_reset_witness:
  "(\<exists>s s'. lzw_run \<lparr>stream = DataBlock_init, min_code_length = 2, clear_code = 4,
                  end_code = 5, max_codes = 4096\<rparr> [PyInt 0, PyInt 1, PyInt 2] = Inr s \<and>
       lzw_step \<lparr>stream = DataBlock_init, min_code_length = 2, clear_code = 4,
                  end_code = 5, max_codes = 4096\<rparr> s (PyInt 3) = Inr s' \<and>
           live_entries (table s) = next_code s \<and> next_code s < 4096 \<and>
           live_entries (lzw_insert s (PyInt 3)) \<le> 4096 \<and> live_entries (table s') < 4096) \<and>
   (\<exists>n s s'. 0 < n \<and> lzw_run \<lparr>stream = DataBlock_init, min_code_length = 2, clear_code = 4,
                  end_code = 5, max_codes = 4096\<rparr> (replicate n (PyInt 0)) = Inr s \<and>
            map_of (table s) (pattern s @ [PyInt 0]) = None \<and> next_code s + 1 = 4096 \<and>
            lzw_step \<lparr>stream = DataBlock_init, min_code_length = 2, clear_code = 4,
                  end_code = 5, max_codes = 4096\<rparr> s (PyInt 0) = Inr s' \<and>
            table s' = init_table 2)"
proof -
  have "Compression_init (PyInt (int 2)) = Inr \<lparr>stream = DataBlock_init, min_code_length = 2,
      clear_code = 4, end_code = 5, max_codes = 4096\<rparr>"
    by (simp add: Compression_init_def)
  from table_bound_reset [OF _ _ this, of "[PyInt 0, PyInt 1, PyInt 2]" "PyInt 3"]
  show ?thesis
    by (simp add: in_alphabet_def) blast
qed

text \<open>With \<open>min_code_length = 12\<close> the dict holds 4096 entries when the loop is entered,
  4098 codes with the clear and end codes.\<close>

theorem table_4098_counterexample:
  "map_sum id live_entries (map_sum id table (lzw_fresh_run (PyInt 12) [])) = Inr 4098"
proof -
  from lzw_fresh_run_Nil[of 12] obtain st where
    "lzw_fresh_run (PyInt (int 12)) [] =
     Inr \<lparr>code_length = 12 + 1, next_code = 2 ^ 12 + 2, table = init_table 12, pattern = [],
          out = st\<rparr>" by blast
  then show ?thesis by (simp add: live_entries_def length_init_table)
qed


section \<open>Configuration\<close>

text \<open>
  Claim C6 says that a \<open>GIFSurface\<close> with an integer colour depth outside 1..8, such as
  9, and a \<open>Compression\<close> with an integer \<open>min_code_length\<close> outside 2..12 are refused.
  Both guards read \<open>not isinstance(x, int) and ...\<close> and so never fire for an integer:
  \<open>GIFSurface(10, 10, 9)\<close> is built, with a palette of 1536 zeros and a compressor of
  \<open>min_code_length\<close> 9, and \<open>Compression(13)\<close> is built.
\<close>

theorem invalid_config_accepted:
  "GIFSurface_init 10 10 (PyInt 9) None 0 PyNone PyNone =
     Inr \<lparr>surface_size = (10, 10), loop = 0, io = [], color_depth = PyInt 9,
          palette = replicate 1536 0,
          lzw_compress = \<lparr>stream = DataBlock_init, min_code_length = 9, clear_code = 512,
                           end_code = 513, max_codes = 4096\<rparr>\<rparr> \<and>
   Compression_init (PyInt 13) =
     Inr \<lparr>stream = DataBlock_init, min_code_length = 13, clear_code = 8192,
          end_code = 8193, max_codes = 4096\<rparr>"
  by (simp add: GIFSurface_init_def set_palette_def global_color_table_def
      set_lzw_compress_def Compression_init_def list_all_length)


text \<open>
  Claim C7.  For a colour depth \<open>n\<close> and a palette of bytes: a palette shorter than
  \<open>3 * 2 ^ n\<close> is refused by \<open>global_color_table\<close> and by \<open>set_palette\<close> with the
  ValueError for the length; a longer one gives its first \<open>3 * 2 ^ n\<close> bytes.
\<close>

theorem palette_length:
  assumes "list_all (\<lambda>x. 0 \<le> x \<and> x \<le> 255) p"
  shows "(length p < 3 * 2 ^ n \<longrightarrow>
            global_color_table (PyInt (int n)) p = Inl (ValueError ''Invalid palette length.'') \<and>
            set_palette (S\<lparr>color_depth := PyInt (int n)\<rparr>) p =
              Inl (ValueError ''Invalid palette length.'')) \<and>
         (length p > 3 * 2 ^ n \<longrightarrow>
            global_color_table (PyInt (int n)) p = Inr (take (3 * 2 ^ n) (map nat p)) \<and>
            set_palette (S\<lparr>color_depth := PyInt (int n)\<rparr>) p =
              Inr (S\<lparr>color_depth := PyInt (int n), palette := take (3 * 2 ^ n) (map nat p)\<rparr>)) \<and>
         (length p = 3 * 2 ^ n \<longrightarrow>
            global_color_table (PyInt (int n)) p = Inr (map nat p))"
  using assms by (simp add: global_color_table_def set_palette_def)

text \<open>Instances: three bytes for depth 1, which needs six, and five bytes for depth 0,
  which needs three.\<close>

theorem palette_length_witness:
  "global_color_table (PyInt 1) [1, 2, 3] = Inl (ValueError ''Invalid palette length.'') \<and>
   global_color_table (PyInt 0) [1, 2, 3, 4, 5] = Inr [1, 2, 3]"
  using palette_length [of "[1, 2, 3]" 1] palette_length [of "[1, 2, 3, 4, 5]" 0]
  by simp


section \<open>The frame box of a maze\<close>

text \<open>
  Claim C8.  After \<open>reset\<close>, any sequence of \<open>mark_cell\<close> calls at cells that can be
  indexed in the grid succeeds, counts its calls in \<open>num_changes\<close>, and leaves in
  \<open>frame_box\<close> the tight bounding box of the marked cells: \<open>None\<close> when no cell has been
  marked, and otherwise the least and greatest first and second coordinates.
\<close>

theorem frame_box_tight:
  assumes "\<forall>c \<in> set (map fst cvs). in_grid M c"
  shows "\<exists>M'. mark_cells (reset M) cvs = Inr M' \<and> num_changes M' = length cvs \<and>
           frame_box M' = tight_box (map fst cvs) \<and>
           (cvs = [] \<longrightarrow> frame_box M' = None) \<and>
           (cvs \<noteq> [] \<longrightarrow> frame_box M' =
              Some (Min (set (map (fst \<circ> fst) cvs)), Min (set (map (snd \<circ> fst) cvs)),
                    Max (set (map (fst \<circ> fst) cvs)), Max (set (map (snd \<circ> fst) cvs))))"
proof -
  have "\<forall>c \<in> set (map fst cvs). in_grid (reset M) c"
    using assms by (simp add: in_grid_reset)
  from mark_cells_box[OF this] obtain M' where
    "mark_cells (reset M) cvs = Inr M'" "num_changes M' = length cvs"
    "frame_box M' = tight_box (map fst cvs)" by (auto simp: reset_def)
  then show ?thesis by (auto simp: tight_box_def)
qed

text \<open>On a fresh 5 x 5 maze, marking (2, 2) and then (2, 4) gives (2, 2, 2, 4); with no
  mark after a reset the frame box is \<open>None\<close>.\<close>

theorem frame_box_tight_witness:
  "Maze_init 5 5 = Inr \<lparr>maze_size = (5, 5), grid = replicate 5 (replicate 5 0),
       num_changes = 0, frame_box = None\<rparr> \<and>
   (\<exists>M'. mark_cells (reset \<lparr>maze_size = (5, 5), grid = replicate 5 (replicate 5 0),
                 num_changes = 0, frame_box = None\<rparr>) [((2, 2), 1), ((2, 4), 1)] = Inr M' \<and>
         num_changes M' = 2 \<and> frame_box M' = Some (2, 2, 2, 4)) \<and>
   (\<exists>M'. mark_cells (reset \<lparr>maze_size = (5, 5), grid = replicate 5 (replicate 5 0),
                 num_changes = 7, frame_box = Some (0, 0, 3, 3)\<rparr>) [] = Inr M' \<and>
         frame_box M' = None)"
  using frame_box_tight [of "[((2, 2), 1), ((2, 4), 1)]" "\<lparr>maze_size = (5, 5),
       grid = replicate 5 (replicate 5 0), num_changes = 0, frame_box = None\<rparr>"]
     frame_box_tight [of "[]" "\<lparr>maze_size = (5, 5), grid = replicate 5 (replicate 5 0),
                 num_changes = 7, frame_box = Some (0, 0, 3, 3)\<rparr>"]
  by (auto simp: Maze_init_def in_grid_def py_index_def tight_box_def)


section \<open>Flushing a frame\<close>

text \<open>
  Claim C9.  When \<open>refresh_frame\<close> is called with \<open>num_changes >= speed\<close>, or
  \<open>clear_remaining_changes\<close> with \<open>num_changes > 0\<close>, and the call returns, the surface
  has received exactly one frame: the 8 bytes of the graphics control block, the 10 bytes
  of the image descriptor of the frame box (of the whole maze when there is no frame
  box), scaled by the cell size and moved by the translation, and one block of image
  data, from the byte \<open>min_code_length\<close> to the terminating zero.  The maze then has
  \<open>num_changes = 0\<close> and no frame box, and its grid is unchanged.  Both calls do return
  when the compressor of the surface is as built, with \<open>min_code_length\<close> from 1 to 11,
  the two blocks can be packed, and the frame has at least one pixel and only pixels
  whose cells can be read and are mapped to colours of the alphabet.
\<close>

theorem flush_emits_one_frame:
  assumes "maze A = Some M"
    and "(case frame_box M of Some box \<Rightarrow> box
          | None \<Rightarrow> (0, 0, fst (maze_size M) - 1, snd (maze_size M) - 1)) = (l, t, r, b)"
  shows "((speed A \<le> int (num_changes M) \<and> refresh_frame A = Inr A') \<or>
          (0 < num_changes M \<and> clear_remaining_changes A = Inr A') \<longrightarrow>
      (\<exists>control descriptor blocks S' M'.
        graphics_control_block (delay A) (trans_index A) = Inr control \<and> length control = 8 \<and>
        image_descriptor (cell_size A * l + fst (translation A))
          (cell_size A * t + snd (translation A))
          (cell_size A * (r - l + 1)) (cell_size A * (b - t + 1)) 0 = Inr descriptor \<and>
        length descriptor = 10 \<and>
        GIFSurface_compress (surface A) (get_frame_pixels A M l t (r - l + 1) (b - t + 1)) =
          Inr (min_code_length (lzw_compress (surface A)) # blocks @ [0], S') \<and>
        io (surface A') =
          io (surface A) @ control @ descriptor @
          min_code_length (lzw_compress (surface A)) # blocks @ [0] \<and>
        maze A' = Some M' \<and> num_changes M' = 0 \<and> frame_box M' = None \<and> grid M' = grid M)) \<and>
     (Compression_init (PyInt (int mcl)) = Inr (lzw_compress (surface A)) \<and>
      1 \<le> mcl \<and> mcl \<le> 11 \<and>
      \<not> isl (graphics_control_block (delay A) (trans_index A)) \<and>
      \<not> isl (image_descriptor (cell_size A * l + fst (translation A))
          (cell_size A * t + snd (translation A))
          (cell_size A * (r - l + 1)) (cell_size A * (b - t + 1)) 0) \<and>
      get_frame_pixels A M l t (r - l + 1) (b - t + 1) \<noteq> [] \<and>
      (\<forall>p \<in> set (get_frame_pixels A M l t (r - l + 1) (b - t + 1)).
         \<exists>c. p = Inr c \<and> in_alphabet mcl c) \<longrightarrow>
      (\<exists>A''. refresh_frame A = Inr A'') \<and> (\<exists>A''. clear_remaining_changes A = Inr A''))"
proof (intro conjI impI)
  assume flush: "(speed A \<le> int (num_changes M) \<and> refresh_frame A = Inr A') \<or>
          (0 < num_changes M \<and> clear_remaining_changes A = Inr A')"
  show "(\<exists>control descriptor blocks S' M'.
        graphics_control_block (delay A) (trans_index A) = Inr control \<and> length control = 8 \<and>
        image_descriptor (cell_size A * l + fst (translation A))
          (cell_size A * t + snd (translation A))
          (cell_size A * (r - l + 1)) (cell_size A * (b - t + 1)) 0 = Inr descriptor \<and>
        length descriptor = 10 \<and>
        GIFSurface_compress (surface A) (get_frame_pixels A M l t (r - l + 1) (b - t + 1)) =
          Inr (min_code_length (lzw_compress (surface A)) # blocks @ [0], S') \<and>
        io (surface A') =
          io (surface A) @ control @ descriptor @
          min_code_length (lzw_compress (surface A)) # blocks @ [0] \<and>
        maze A' = Some M' \<and> num_changes M' = 0 \<and> frame_box M' = None \<and> grid M' = grid M)"
  proof -
  from assms(1) flush obtain frame A1 where
    e: "encode_frame A = Inr (frame, A1)"
    and a': "A' = A1\<lparr>surface := GIFSurface_write (surface A1) frame\<rparr>"
    by (auto simp: refresh_frame_def clear_remaining_changes_def split: sum.splits if_splits)
  from encode_frame_result[OF assms(1,2) e] obtain control descriptor blocks S' where
    r: "graphics_control_block (delay A) (trans_index A) = Inr control" "length control = 8"
     "image_descriptor (cell_size A * l + fst (translation A))
       (cell_size A * t + snd (translation A))
       (cell_size A * (r - l + 1)) (cell_size A * (b - t + 1)) 0 = Inr descriptor"
     "length descriptor = 10"
     "GIFSurface_compress (surface A) (get_frame_pixels A M l t (r - l + 1) (b - t + 1)) =
       Inr (min_code_length (lzw_compress (surface A)) # blocks @ [0], S')"
     "frame = control @ descriptor @ min_code_length (lzw_compress (surface A)) # blocks @ [0]"
     "A1 = A\<lparr>surface := S', maze := Some (reset M)\<rparr>" by blast
  have "io S' = io (surface A)"
    using r(5) by (auto simp: GIFSurface_compress_def split: sum.splits)
  then have io: "io (surface A') =
       io (surface A) @ control @ descriptor @
       min_code_length (lzw_compress (surface A)) # blocks @ [0]"
    using a' r(6,7) by (simp add: GIFSurface_write_def)
  have m: "maze A' = Some (reset M)" "num_changes (reset M) = 0" "frame_box (reset M) = None"
    "grid (reset M) = grid M"
    using a' r(7) by (simp_all add: reset_def)
  from r(1-5) io m show ?thesis by blast
  qed
next
  assume c: "Compression_init (PyInt (int mcl)) = Inr (lzw_compress (surface A)) \<and>
      1 \<le> mcl \<and> mcl \<le> 11 \<and>
      \<not> isl (graphics_control_block (delay A) (trans_index A)) \<and>
      \<not> isl (image_descriptor (cell_size A * l + fst (translation A))
          (cell_size A * t + snd (translation A))
          (cell_size A * (r - l + 1)) (cell_size A * (b - t + 1)) 0) \<and>
      get_frame_pixels A M l t (r - l + 1) (b - t + 1) \<noteq> [] \<and>
      (\<forall>p \<in> set (get_frame_pixels A M l t (r - l + 1) (b - t + 1)).
         \<exists>c. p = Inr c \<and> in_alphabet mcl c)"
  then obtain control where
    g: "graphics_control_block (delay A) (trans_index A) = Inr control"
    by (cases "graphics_control_block (delay A) (trans_index A)") auto
  from c obtain descriptor where
    d: "image_descriptor (cell_size A * l + fst (translation A))
          (cell_size A * t + snd (translation A))
          (cell_size A * (r - l + 1)) (cell_size A * (b - t + 1)) 0 = Inr descriptor"
    by (cases "image_descriptor (cell_size A * l + fst (translation A))
          (cell_size A * t + snd (translation A))
          (cell_size A * (r - l + 1)) (cell_size A * (b - t + 1)) 0") auto
  from c have ci: "Compression_init (PyInt (int mcl)) = Inr (lzw_compress (surface A))"
    and m: "1 \<le> mcl" "mcl \<le> 11"
    and ne: "get_frame_pixels A M l t (r - l + 1) (b - t + 1) \<noteq> []"
    and al: "\<forall>p \<in> set (get_frame_pixels A M l t (r - l + 1) (b - t + 1)).
         \<exists>c. p = Inr c \<and> in_alphabet mcl c" by simp_all
  from Compression_call_gen_total[OF ci m al ne] obtain bytes C' where
    "Compression_call_gen (lzw_compress (surface A))
       (get_frame_pixels A M l t (r - l + 1) (b - t + 1)) = Inr (bytes, C')" by blast
  then have "GIFSurface_compress (surface A)
       (get_frame_pixels A M l t (r - l + 1) (b - t + 1)) =
       Inr (bytes, (surface A)\<lparr>lzw_compress := C'\<rparr>)"
    by (simp add: GIFSurface_compress_def)
  with g d assms have "\<exists>frame A1. encode_frame A = Inr (frame, A1)"
    by (simp add: encode_frame_def Let_def)
  with assms(1) show "\<exists>A''. refresh_frame A = Inr A''"
    and "\<exists>A''. clear_remaining_changes A = Inr A''"
    by (auto simp: refresh_frame_def clear_remaining_changes_def)
qed

text \<open>
  The scenario of the claim.  On a 10 x 10 surface of colour depth 2 and a fresh 5 x 5
  maze with cells of 2 pixels and \<open>speed = 1\<close>, marking the cell (2, 2) and calling
  \<open>refresh_frame\<close> writes one frame: the control block, the descriptor of the square of
  2 x 2 pixels at (4, 4), that is the cell (2, 2), and its four pixels; the maze is left
  with no changes and no frame box.
\<close>

theorem flush_emits_one_frame_witness:
  "mark_cell (reset 
     \<lparr>maze_size = (5, 5), grid = replicate 5 (replicate 5 0),
         num_changes = 0, frame_box = None\<rparr>) (2, 2) 1 =
     Inr 
     \<lparr>maze_size = (5, 5), grid = [[0, 0, 0, 0, 0], [0, 0, 0, 0, 0], [0, 0, 1, 0, 0], [0, 0, 0, 0, 0], [0, 0, 0, 0, 0]],
         num_changes = 1, frame_box = Some (2, 2, 2, 2)\<rparr> \<and>
   get_frame_pixels 
     \<lparr>surface =
       \<lparr>surface_size = (10, 10), loop = 0, io = [],
        color_depth = PyInt 2, palette = replicate 12 0,
        lzw_compress = \<lparr>stream = DataBlock_init, min_code_length = 2, clear_code = 4, end_code = 5, max_codes = 4096\<rparr>\<rparr>,
      num_colors = 4,
      colormap = [(0, PyInt 0), (1, PyInt 1), (2, PyInt 2), (3, PyInt 3)],
      speed = 1, trans_index = PyNone, delay = 5, cell_size = 2, translation = (0, 0),
      maze = Some
        \<lparr>maze_size = (5, 5), grid = [[0, 0, 0, 0, 0], [0, 0, 0, 0, 0], [0, 0, 1, 0, 0], [0, 0, 0, 0, 0], [0, 0, 0, 0, 0]],
         num_changes = 1, frame_box = Some (2, 2, 2, 2)\<rparr>\<rparr>
     
     \<lparr>maze_size = (5, 5), grid = [[0, 0, 0, 0, 0], [0, 0, 0, 0, 0], [0, 0, 1, 0, 0], [0, 0, 0, 0, 0], [0, 0, 0, 0, 0]],
         num_changes = 1, frame_box = Some (2, 2, 2, 2)\<rparr> 2 2 1 1 =
     [Inr (PyInt 1), Inr (PyInt 1), Inr (PyInt 1), Inr (PyInt 1)] \<and>
   refresh_frame 
     \<lparr>surface =
       \<lparr>surface_size = (10, 10), loop = 0, io = [],
        color_depth = PyInt 2, palette = replicate 12 0,
        lzw_compress = \<lparr>stream = DataBlock_init, min_code_length = 2, clear_code = 4, end_code = 5, max_codes = 4096\<rparr>\<rparr>,
      num_colors = 4,
      colormap = [(0, PyInt 0), (1, PyInt 1), (2, PyInt 2), (3, PyInt 3)],
      speed = 1, trans_index = PyNone, delay = 5, cell_size = 2, translation = (0, 0),
      maze = Some
        \<lparr>maze_size = (5, 5), grid = [[0, 0, 0, 0, 0], [0, 0, 0, 0, 0], [0, 0, 1, 0, 0], [0, 0, 0, 0, 0], [0, 0, 0, 0, 0]],
         num_changes = 1, frame_box = Some (2, 2, 2, 2)\<rparr>\<rparr> =
     Inr 
     \<lparr>surface =
       \<lparr>surface_size = (10, 10), loop = 0, io = [33, 249, 4, 4, 5, 0, 0, 0, 44, 4, 0, 4, 0, 2, 0, 2, 0, 0, 2, 2, 140, 83, 0],
        color_depth = PyInt 2, palette = replicate 12 0,
        lzw_compress = \<lparr>stream = DataBlock_init, min_code_length = 2, clear_code = 4, end_code = 5, max_codes = 4096\<rparr>\<rparr>,
      num_colors = 4,
      colormap = [(0, PyInt 0), (1, PyInt 1), (2, PyInt 2), (3, PyInt 3)],
      speed = 1, trans_index = PyNone, delay = 5, cell_size = 2, translation = (0, 0),
      maze = Some
        \<lparr>maze_size = (5, 5), grid = [[0, 0, 0, 0, 0], [0, 0, 0, 0, 0], [0, 0, 1, 0, 0], [0, 0, 0, 0, 0], [0, 0, 0, 0, 0]],
         num_changes = 0, frame_box = None\<rparr>\<rparr> \<and>
   (\<exists>control descriptor blocks.
      graphics_control_block 5 PyNone = Inr control \<and> length control = 8 \<and>
      image_descriptor 4 4 2 2 0 = Inr descriptor \<and> length descriptor = 10 \<and>
      [33, 249, 4, 4, 5, 0, 0, 0, 44, 4, 0, 4, 0, 2, 0, 2, 0, 0, 2, 2, 140, 83, 0] =
        control @ descriptor @ 2 # blocks @ [0])"
proof -
  define M where "M = 
     \<lparr>maze_size = (5, 5), grid = [[0, 0, 0, 0, 0], [0, 0, 0, 0, 0], [0, 0, 1, 0, 0], [0, 0, 0, 0, 0], [0, 0, 0, 0, 0]],
         num_changes = 1, frame_box = Some (2, 2, 2, 2)\<rparr>"
  define A where "A = 
     \<lparr>surface =
       \<lparr>surface_size = (10, 10), loop = 0, io = [],
        color_depth = PyInt 2, palette = replicate 12 0,
        lzw_compress = \<lparr>stream = DataBlock_init, min_code_length = 2, clear_code = 4, end_code = 5, max_codes = 4096\<rparr>\<rparr>,
      num_colors = 4,
      colormap = [(0, PyInt 0), (1, PyInt 1), (2, PyInt 2), (3, PyInt 3)],
      speed = 1, trans_index = PyNone, delay = 5, cell_size = 2, translation = (0, 0),
      maze = Some
        \<lparr>maze_size = (5, 5), grid = [[0, 0, 0, 0, 0], [0, 0, 0, 0, 0], [0, 0, 1, 0, 0], [0, 0, 0, 0, 0], [0, 0, 0, 0, 0]],
         num_changes = 1, frame_box = Some (2, 2, 2, 2)\<rparr>\<rparr>"
  define A' where "A' = 
     \<lparr>surface =
       \<lparr>surface_size = (10, 10), loop = 0, io = [33, 249, 4, 4, 5, 0, 0, 0, 44, 4, 0, 4, 0, 2, 0, 2, 0, 0, 2, 2, 140, 83, 0],
        color_depth = PyInt 2, palette = replicate 12 0,
        lzw_compress = \<lparr>stream = DataBlock_init, min_code_length = 2, clear_code = 4, end_code = 5, max_codes = 4096\<rparr>\<rparr>,
      num_colors = 4,
      colormap = [(0, PyInt 0), (1, PyInt 1), (2, PyInt 2), (3, PyInt 3)],
      speed = 1, trans_index = PyNone, delay = 5, cell_size = 2, translation = (0, 0),
      maze = Some
        \<lparr>maze_size = (5, 5), grid = [[0, 0, 0, 0, 0], [0, 0, 0, 0, 0], [0, 0, 1, 0, 0], [0, 0, 0, 0, 0], [0, 0, 0, 0, 0]],
         num_changes = 0, frame_box = None\<rparr>\<rparr>"
  have m: "mark_cell (reset 
     \<lparr>maze_size = (5, 5), grid = replicate 5 (replicate 5 0),
         num_changes = 0, frame_box = None\<rparr>) (2, 2) 1 = Inr M"
    unfolding M_def by code_simp
  have e: "refresh_frame A = Inr A'"
    unfolding A_def A'_def by code_simp
  have g: "get_frame_pixels A M 2 2 1 1 = [Inr (PyInt 1), Inr (PyInt 1), Inr (PyInt 1), Inr (PyInt 1)]"
    unfolding A_def M_def by code_simp
  have p1: "maze A = Some M" by (simp add: A_def M_def)
  have p2: "(case frame_box M of Some box \<Rightarrow> box
          | None \<Rightarrow> (0, 0, fst (maze_size M) - 1, snd (maze_size M) - 1)) = (2, 2, 2, 2)"
    by (simp add: M_def)
  have p3: "(speed A \<le> int (num_changes M) \<and> refresh_frame A = Inr A') \<or>
         (0 < num_changes M \<and> clear_remaining_changes A = Inr A')"
    using e by (simp add: A_def M_def)
  from flush_emits_one_frame [OF p1 p2, of A' 2] p3 obtain control descriptor blocks where
    "graphics_control_block (delay A) (trans_index A) = Inr control" "length control = 8"
    "image_descriptor (cell_size A * 2 + fst (translation A))
       (cell_size A * 2 + snd (translation A))
       (cell_size A * (2 - 2 + 1)) (cell_size A * (2 - 2 + 1)) 0 = Inr descriptor"
    "length descriptor = 10"
    "io (surface A') =
       io (surface A) @ control @ descriptor @
       min_code_length (lzw_compress (surface A)) # blocks @ [0]" by blast
  then have "graphics_control_block 5 PyNone = Inr control \<and> length control = 8 \<and>
      image_descriptor 4 4 2 2 0 = Inr descriptor \<and> length descriptor = 10 \<and>
      [33, 249, 4, 4, 5, 0, 0, 0, 44, 4, 0, 4, 0, 2, 0, 2, 0, 0, 2, 2, 140, 83, 0] =
        control @ descriptor @ 2 # blocks @ [0]"
    by (simp add: A_def A'_def)
  then have "\<exists>control descriptor blocks.
      graphics_control_block 5 PyNone = Inr control \<and> length control = 8 \<and>
      image_descriptor 4 4 2 2 0 = Inr descriptor \<and> length descriptor = 10 \<and>
      [33, 249, 4, 4, 5, 0, 0, 0, 44, 4, 0, 4, 0, 2, 0, 2, 0, 0, 2, 2, 140, 83, 0] =
        control @ descriptor @ 2 # blocks @ [0]" by blast
  with m e g show ?thesis unfolding M_def A_def A'_def by simp
qed


section \<open>The delay frame\<close>

text \<open>
  Claim C10.  With \<open>trans_index = None\<close>, \<open>pad_delay_frame\<close> raises and writes nothing,
  whatever the state of the animation; the error is KeyError when the delay fits 16 bits
  and the stream of the compressor is well formed.  If \<open>pad_delay_frame\<close> returns, then
  \<open>trans_index\<close> is an integer in \<open>[0, 2 ^ min_code_length)\<close> for the compressor of the
  surface.  Both hold for every state of the compressor's stream; the call that raises
  leaves the clear code it has written in that stream.
\<close>

theorem pad_delay_frame_trans_index:
  "(trans_index A = PyNone \<longrightarrow> isl (pad_delay_frame A d)) \<and>
   (trans_index A = PyNone \<and> 0 \<le> d \<and> d < 65536 \<and>
      DataBlock_ok (stream (lzw_compress (surface A))) \<longrightarrow>
        pad_delay_frame A d = Inl KeyError) \<and>
   (pad_delay_frame A d = Inr A' \<longrightarrow>
      (\<exists>t. trans_index A = PyInt t \<and> 0 \<le> t \<and>
           t < 2 ^ min_code_length (lzw_compress (surface A))))"
proof (intro conjI impI)
  assume "trans_index A = PyNone"
  then have "\<not> in_alphabet (min_code_length (lzw_compress (surface A))) (trans_index A)"
    by (simp add: in_alphabet_def)
  then show "isl (pad_delay_frame A d)" by (rule pad_delay_frame_bad)
next
  assume a: "trans_index A = PyNone \<and> 0 \<le> d \<and> d < 65536 \<and>
      DataBlock_ok (stream (lzw_compress (surface A)))"
  then have "\<not> in_alphabet (min_code_length (lzw_compress (surface A))) PyNone"
    by (simp add: in_alphabet_def)
  from Compression_call_single(2)[OF this] a
  have "Compression_call (lzw_compress (surface A)) [PyNone] = Inl KeyError" by simp
  moreover from a gcb_None_ok[of d] obtain control where
    "graphics_control_block d (trans_index A) = Inr control" by auto
  moreover from image_descriptor_1x1_ok obtain descriptor where
    "image_descriptor 0 0 1 1 0 = Inr descriptor" by blast
  ultimately show "pad_delay_frame A d = Inl KeyError"
    using a by (simp add: pad_delay_frame_def GIFSurface_compress_def Compression_call_gen_single)
next
  assume s: "pad_delay_frame A d = Inr A'"
  have "in_alphabet (min_code_length (lzw_compress (surface A))) (trans_index A)"
  proof (rule ccontr)
    assume "\<not> in_alphabet (min_code_length (lzw_compress (surface A))) (trans_index A)"
    from pad_delay_frame_bad[OF this, of d] s show False by simp
  qed
  then show "\<exists>t. trans_index A = PyInt t \<and> 0 \<le> t \<and>
           t < 2 ^ min_code_length (lzw_compress (surface A))"
    by (cases "trans_index A") (auto simp: in_alphabet_def)
qed

text \<open>
  On a 10 x 10 surface of colour depth 2: the animation is built with \<open>trans_index = None\<close>
  and \<open>pad_delay_frame(5)\<close> raises KeyError; once \<open>trans_index\<close> is 3 the call writes the
  frame of one transparent pixel, from a fresh stream and also from the stream that the
  call that raised has left, with its clear code (the byte 4, 3 bits written).
\<close>

theorem pad_delay_frame_trans_index_witness:
  "GIFSurface_init 10 10 (PyInt 2) None 0 PyNone PyNone =
     Inr 
     \<lparr>surface_size = (10, 10), loop = 0, io = [],
        color_depth = PyInt 2, palette = replicate 12 0,
        lzw_compress = \<lparr>stream = DataBlock_init, min_code_length = 2, clear_code = 4, end_code = 5, max_codes = 4096\<rparr>\<rparr> \<and>
   Animation_init 
     \<lparr>surface_size = (10, 10), loop = 0, io = [],
        color_depth = PyInt 2, palette = replicate 12 0,
        lzw_compress = \<lparr>stream = DataBlock_init, min_code_length = 2, clear_code = 4, end_code = 5, max_codes = 4096\<rparr>\<rparr> =
     Inr 
     \<lparr>surface =
       \<lparr>surface_size = (10, 10), loop = 0, io = [],
        color_depth = PyInt 2, palette = replicate 12 0,
        lzw_compress = \<lparr>stream = DataBlock_init, min_code_length = 2, clear_code = 4, end_code = 5, max_codes = 4096\<rparr>\<rparr>,
      num_colors = 4,
      colormap = [(0, PyInt 0), (1, PyInt 1), (2, PyInt 2), (3, PyInt 3)],
      speed = 10, trans_index = PyNone, delay = 5, cell_size = 5, translation = (0, 0),
      maze = None\<rparr> \<and>
   pad_delay_frame 
     \<lparr>surface =
       \<lparr>surface_size = (10, 10), loop = 0, io = [],
        color_depth = PyInt 2, palette = replicate 12 0,
        lzw_compress = \<lparr>stream = DataBlock_init, min_code_length = 2, clear_code = 4, end_code = 5, max_codes = 4096\<rparr>\<rparr>,
      num_colors = 4,
      colormap = [(0, PyInt 0), (1, PyInt 1), (2, PyInt 2), (3, PyInt 3)],
      speed = 10, trans_index = PyNone, delay = 5, cell_size = 5, translation = (0, 0),
      maze = None\<rparr> 5 = Inl KeyError \<and>
   pad_delay_frame 
     \<lparr>surface =
       \<lparr>surface_size = (10, 10), loop = 0, io = [],
        color_depth = PyInt 2, palette = replicate 12 0,
        lzw_compress = \<lparr>stream = DataBlock_init, min_code_length = 2, clear_code = 4, end_code = 5, max_codes = 4096\<rparr>\<rparr>,
      num_colors = 4,
      colormap = [(0, PyInt 0), (1, PyInt 1), (2, PyInt 2), (3, PyInt 3)],
      speed = 10, trans_index = PyInt 3, delay = 5, cell_size = 5, translation = (0, 0),
      maze = None\<rparr> 5 =
     Inr 
     \<lparr>surface =
       \<lparr>surface_size = (10, 10), loop = 0, io = [33, 249, 4, 5, 5, 0, 3, 0, 44, 0, 0, 0, 0, 1, 0, 1, 0, 0, 2, 2, 92, 1, 0],
        color_depth = PyInt 2, palette = replicate 12 0,
        lzw_compress = \<lparr>stream = DataBlock_init, min_code_length = 2, clear_code = 4, end_code = 5, max_codes = 4096\<rparr>\<rparr>,
      num_colors = 4,
      colormap = [(0, PyInt 0), (1, PyInt 1), (2, PyInt 2), (3, PyInt 3)],
      speed = 10, trans_index = PyInt 3, delay = 5, cell_size = 5, translation = (0, 0),
      maze = None\<rparr> \<and>
   pad_delay_frame 
     \<lparr>surface =
       \<lparr>surface_size = (10, 10), loop = 0, io = [],
        color_depth = PyInt 2, palette = replicate 12 0,
        lzw_compress = \<lparr>stream = \<lparr>bitstream = [4], nbits = 3\<rparr>, min_code_length = 2, clear_code = 4, end_code = 5, max_codes = 4096\<rparr>\<rparr>,
      num_colors = 4,
      colormap = [(0, PyInt 0), (1, PyInt 1), (2, PyInt 2), (3, PyInt 3)],
      speed = 10, trans_index = PyInt 3, delay = 5, cell_size = 5, translation = (0, 0),
      maze = None\<rparr> 5 =
     Inr 
     \<lparr>surface =
       \<lparr>surface_size = (10, 10), loop = 0, io = [33, 249, 4, 5, 5, 0, 3, 0, 44, 0, 0, 0, 0, 1, 0, 1, 0, 0, 2, 2, 228, 10, 0],
        color_depth = PyInt 2, palette = replicate 12 0,
        lzw_compress = \<lparr>stream = \<lparr>bitstream = [], nbits = 0\<rparr>, min_code_length = 2, clear_code = 4, end_code = 5, max_codes = 4096\<rparr>\<rparr>,
      num_colors = 4,
      colormap = [(0, PyInt 0), (1, PyInt 1), (2, PyInt 2), (3, PyInt 3)],
      speed = 10, trans_index = PyInt 3, delay = 5, cell_size = 5, translation = (0, 0),
      maze = None\<rparr> \<and>
   (\<exists>t. PyInt 3 = PyInt t \<and> 0 \<le> t \<and> t < 2 ^ 2)"
proof -
  define A where "A = 
     \<lparr>surface =
       \<lparr>surface_size = (10, 10), loop = 0, io = [],
        color_depth = PyInt 2, palette = replicate 12 0,
        lzw_compress = \<lparr>stream = DataBlock_init, min_code_length = 2, clear_code = 4, end_code = 5, max_codes = 4096\<rparr>\<rparr>,
      num_colors = 4,
      colormap = [(0, PyInt 0), (1, PyInt 1), (2, PyInt 2), (3, PyInt 3)],
      speed = 10, trans_index = PyNone, delay = 5, cell_size = 5, translation = (0, 0),
      maze = None\<rparr>"
  define B where "B = 
     \<lparr>surface =
       \<lparr>surface_size = (10, 10), loop = 0, io = [],
        color_depth = PyInt 2, palette = replicate 12 0,
        lzw_compress = \<lparr>stream = DataBlock_init, min_code_length = 2, clear_code = 4, end_code = 5, max_codes = 4096\<rparr>\<rparr>,
      num_colors = 4,
      colormap = [(0, PyInt 0), (1, PyInt 1), (2, PyInt 2), (3, PyInt 3)],
      speed = 10, trans_index = PyInt 3, delay = 5, cell_size = 5, translation = (0, 0),
      maze = None\<rparr>"
  define B' where "B' = 
     \<lparr>surface =
       \<lparr>surface_size = (10, 10), loop = 0, io = [33, 249, 4, 5, 5, 0, 3, 0, 44, 0, 0, 0, 0, 1, 0, 1, 0, 0, 2, 2, 92, 1, 0],
        color_depth = PyInt 2, palette = replicate 12 0,
        lzw_compress = \<lparr>stream = DataBlock_init, min_code_length = 2, clear_code = 4, end_code = 5, max_codes = 4096\<rparr>\<rparr>,
      num_colors = 4,
      colormap = [(0, PyInt 0), (1, PyInt 1), (2, PyInt 2), (3, PyInt 3)],
      speed = 10, trans_index = PyInt 3, delay = 5, cell_size = 5, translation = (0, 0),
      maze = None\<rparr>"
  have s: "GIFSurface_init 10 10 (PyInt 2) None 0 PyNone PyNone =
     Inr 
     \<lparr>surface_size = (10, 10), loop = 0, io = [],
        color_depth = PyInt 2, palette = replicate 12 0,
        lzw_compress = \<lparr>stream = DataBlock_init, min_code_length = 2, clear_code = 4, end_code = 5, max_codes = 4096\<rparr>\<rparr>"
    by code_simp
  have a: "Animation_init 
     \<lparr>surface_size = (10, 10), loop = 0, io = [],
        color_depth = PyInt 2, palette = replicate 12 0,
        lzw_compress = \<lparr>stream = DataBlock_init, min_code_length = 2, clear_code = 4, end_code = 5, max_codes = 4096\<rparr>\<rparr> = Inr A"
    unfolding A_def by code_simp
  have "trans_index A = PyNone \<and> (0::int) \<le> 5 \<and> (5::int) < 65536 \<and>
      DataBlock_ok (stream (lzw_compress (surface A)))"
    by (simp add: A_def DataBlock_init_ok)
  with pad_delay_frame_trans_index [of A 5] have k: "pad_delay_frame A 5 = Inl KeyError"
    by blast
  have e: "pad_delay_frame B 5 = Inr B'"
    unfolding B_def B'_def by code_simp
  have d: "pad_delay_frame 
     \<lparr>surface =
       \<lparr>surface_size = (10, 10), loop = 0, io = [],
        color_depth = PyInt 2, palette = replicate 12 0,
        lzw_compress = \<lparr>stream = \<lparr>bitstream = [4], nbits = 3\<rparr>, min_code_length = 2, clear_code = 4, end_code = 5, max_codes = 4096\<rparr>\<rparr>,
      num_colors = 4,
      colormap = [(0, PyInt 0), (1, PyInt 1), (2, PyInt 2), (3, PyInt 3)],
      speed = 10, trans_index = PyInt 3, delay = 5, cell_size = 5, translation = (0, 0),
      maze = None\<rparr> 5 =
     Inr 
     \<lparr>surface =
       \<lparr>surface_size = (10, 10), loop = 0, io = [33, 249, 4, 5, 5, 0, 3, 0, 44, 0, 0, 0, 0, 1, 0, 1, 0, 0, 2, 2, 228, 10, 0],
        color_depth = PyInt 2, palette = replicate 12 0,
        lzw_compress = \<lparr>stream = \<lparr>bitstream = [], nbits = 0\<rparr>, min_code_length = 2, clear_code = 4, end_code = 5, max_codes = 4096\<rparr>\<rparr>,
      num_colors = 4,
      colormap = [(0, PyInt 0), (1, PyInt 1), (2, PyInt 2), (3, PyInt 3)],
      speed = 10, trans_index = PyInt 3, delay = 5, cell_size = 5, translation = (0, 0),
      maze = None\<rparr>"
    by code_simp
  from e pad_delay_frame_trans_index [of B 5 B'] have
    "\<exists>t. trans_index B = PyInt t \<and> 0 \<le> t \<and>
         t < 2 ^ min_code_length (lzw_compress (surface B))" by blast
  then have "\<exists>t. PyInt 3 = PyInt t \<and> 0 \<le> t \<and> t < (2::int) ^ 2"
    by (simp add: B_def)
  with s a k e d show ?thesis unfolding A_def B_def B'_def by simp
qed

end
